theory Spec2Isabelle
  imports Main "HOL-Library.Multiset"
begin

chapter \<open>The model\<close>

section \<open>Shared vocabulary\<close>

text \<open>
  The text direction input of the patterns and of the drawer container's
  \<^verbatim>\<open>Directionality\<close>: the TypeScript type \<^verbatim>\<open>'ltr' | 'rtl'\<close>.
\<close>

datatype text_direction = Ltr | Rtl

text \<open>A thrown JavaScript \<^verbatim>\<open>Error\<close>, with its message.\<close>

datatype js_error = Error string

section \<open>Material drawer (src/material/sidenav)\<close>

subsection \<open>Data\<close>

datatype drawer_position = PosStart | PosEnd

datatype MatDrawerMode = Over | Push | Side

datatype MatDrawerToggleResult = ResOpen | ResClose

text \<open>\<^verbatim>\<open>FocusOrigin\<close> without its \<^verbatim>\<open>null\<close>; a nullable origin is an option.\<close>

datatype FocusOrigin = Touch | Mouse | Keyboard | Program

text \<open>
  The value held by \<^verbatim>\<open>_autoFocus\<close>: a boolean, or a string (one of the
  \<^verbatim>\<open>AutoFocusTarget\<close> names or a CSS selector).
\<close>

datatype autofocus = AutoBool bool | AutoString string

text \<open>
  The fields of \<^verbatim>\<open>MatDrawer\<close> that \<^verbatim>\<open>toggle\<close>, \<^verbatim>\<open>_setOpen\<close> and the container's
  validation read or write. \<open>d_focusTrap\<close> is \<open>None\<close> while no focus trap exists and
  otherwise holds the trap's \<^verbatim>\<open>enabled\<close> flag; the two class flags are the entries
  \<^verbatim>\<open>mat-drawer-opened\<close> and \<^verbatim>\<open>mat-drawer-animating\<close> of the host's class list.
\<close>

record MatDrawer =
  d_position :: drawer_position
  d_mode :: MatDrawerMode
  d_opened :: bool
  d_openedVia :: "FocusOrigin option"
  d_autoFocus :: "autofocus option"
  d_elementFocusedBefore :: "nat option"
  d_focusTrap :: "bool option"
  d_classOpened :: bool
  d_classAnimating :: bool

text \<open>The four drawer slots that \<^verbatim>\<open>_validateDrawers\<close> assigns.\<close>

record MatDrawerContainer =
  c_start :: "MatDrawer option"
  c_end :: "MatDrawer option"
  c_left :: "MatDrawer option"
  c_right :: "MatDrawer option"

subsection \<open>Duplicate positions\<close>

definition position_name :: "drawer_position \<Rightarrow> string" where
  "position_name p = (case p of PosStart \<Rightarrow> ''start'' | PosEnd \<Rightarrow> ''end'')"

text \<open>
  \<^verbatim>\<open>throw Error(`A drawer was already declared for 'position="${position}"'`)\<close>:
  the quote characters of the message are written by their codes.
\<close>

definition throwMatDuplicatedDrawerError :: "string \<Rightarrow> js_error" where
  "throwMatDuplicatedDrawerError position =
     Error (''A drawer was already declared for '' @ [CHR 0x27] @ ''position='' @ [CHR 0x22]
            @ position @ [CHR 0x22, CHR 0x27])"

text \<open>
  The guard \<^verbatim>\<open>typeof ngDevMode === 'undefined' || ngDevMode\<close>. The global
  \<^verbatim>\<open>ngDevMode\<close> belongs to the framework, so it is a parameter here: \<open>None\<close> when
  it is undefined, otherwise its truth value.
\<close>

definition devModeOn :: "bool option \<Rightarrow> bool" where
  "devModeOn ngDevMode = (case ngDevMode of None \<Rightarrow> True | Some b \<Rightarrow> b)"

text \<open>
  The body of \<^verbatim>\<open>this._drawers.forEach(drawer => ...)\<close> in \<^verbatim>\<open>_validateDrawers\<close>:
  the throw ends the loop, so the remaining drawers are not visited.
\<close>

fun validate_forEach ::
  "bool option \<Rightarrow> MatDrawer list \<Rightarrow> MatDrawerContainer \<Rightarrow> js_error + MatDrawerContainer" where
  "validate_forEach ngDevMode [] c = Inr c"
| "validate_forEach ngDevMode (drawer # rest) c =
     (if d_position drawer = PosEnd then
        (if c_end c \<noteq> None \<and> devModeOn ngDevMode
         then Inl (throwMatDuplicatedDrawerError ''end'')
         else validate_forEach ngDevMode rest (c\<lparr>c_end := Some drawer\<rparr>))
      else
        (if c_start c \<noteq> None \<and> devModeOn ngDevMode
         then Inl (throwMatDuplicatedDrawerError ''start'')
         else validate_forEach ngDevMode rest (c\<lparr>c_start := Some drawer\<rparr>)))"

text \<open>
  \<^verbatim>\<open>_validateDrawers\<close>: both slots are reset, the drawers are visited in order, and
  left/right follow the direction (\<open>dir\<close> is \<open>None\<close> when no \<^verbatim>\<open>Directionality\<close> was
  injected).
\<close>

definition validateDrawers ::
  "bool option \<Rightarrow> text_direction option \<Rightarrow> MatDrawer list \<Rightarrow> MatDrawerContainer
     \<Rightarrow> js_error + MatDrawerContainer" where
  "validateDrawers ngDevMode dir drawers c =
     (case validate_forEach ngDevMode drawers (c\<lparr>c_start := None, c_end := None\<rparr>) of
        Inl e \<Rightarrow> Inl e
      | Inr c1 \<Rightarrow>
          Inr (if dir = Some Rtl
               then c1\<lparr>c_left := c_end c1, c_right := c_start c1\<rparr>
               else c1\<lparr>c_left := c_start c1, c_right := c_end c1\<rparr>))"

text \<open>A drawer for the examples: closed, in \<^verbatim>\<open>over\<close> mode, nothing recorded.\<close>

definition drawer0 :: "drawer_position \<Rightarrow> MatDrawer" where
  "drawer0 p = \<lparr>d_position = p, d_mode = Over, d_opened = False, d_openedVia = None,
     d_autoFocus = None, d_elementFocusedBefore = None, d_focusTrap = None,
     d_classOpened = False, d_classAnimating = False\<rparr>"

definition container0 :: MatDrawerContainer where
  "container0 = \<lparr>c_start = None, c_end = None, c_left = None, c_right = None\<rparr>"

subsection \<open>Opening and closing a drawer\<close>

text \<open>
  What a drawer sees of its surroundings when it toggles: the optional container
  (\<^verbatim>\<open>_container\<close>, with its \<^verbatim>\<open>_transitionsEnabled\<close> flag and \<^verbatim>\<open>hasBackdrop\<close> getter) and the
  answer of the DOM query \<^verbatim>\<open>_isFocusWithinDrawer()\<close>.
\<close>

record container_view =
  cv_transitionsEnabled :: bool
  cv_hasBackdrop :: bool

record drawer_env =
  env_container :: "container_view option"
  env_focusWithin :: bool

text \<open>
  What \<^verbatim>\<open>_setOpen\<close> does outside the drawer's own fields, in order: the
  \<^verbatim>\<open>setTimeout\<close> whose callback emits \<^verbatim>\<open>_animationStarted\<close> and \<^verbatim>\<open>_animationEnd\<close>, the focus
  moves of \<^verbatim>\<open>_restoreFocus\<close>, and \<^verbatim>\<open>markForCheck\<close>.
\<close>

datatype drawer_effect =
    ScheduleAnimationEvents
  | FocusVia nat FocusOrigin
  | BlurHost
  | MarkForCheck

text \<open>
  The promise \<^verbatim>\<open>_setOpen\<close> returns: already resolved, or resolving with the next
  \<^verbatim>\<open>openedChange\<close> emission.
\<close>

datatype 'a promise = Resolved 'a | AwaitsOpenedChange

definition autoFocus :: "MatDrawer \<Rightarrow> autofocus" where
  "autoFocus d =
     (case d_autoFocus d of
        None \<Rightarrow> (if d_mode d = Side then AutoString ''dialog'' else AutoString ''first-tabbable'')
      | Some v \<Rightarrow> v)"

definition restoreFocus :: "MatDrawer \<Rightarrow> FocusOrigin \<Rightarrow> MatDrawer \<times> drawer_effect list" where
  "restoreFocus d focusOrigin =
     (if autoFocus d = AutoString ''dialog'' then (d, [])
      else (d\<lparr>d_elementFocusedBefore := None\<rparr>,
            [case d_elementFocusedBefore d of
               Some el \<Rightarrow> FocusVia el focusOrigin
             | None \<Rightarrow> BlurHost]))"

definition updateFocusTrapState :: "drawer_env \<Rightarrow> MatDrawer \<Rightarrow> MatDrawer" where
  "updateFocusTrapState env d =
     (case d_focusTrap d of
        None \<Rightarrow> d
      | Some enabled \<Rightarrow>
          d\<lparr>d_focusTrap :=
               Some ((case env_container env of None \<Rightarrow> False | Some cv \<Rightarrow> cv_hasBackdrop cv)
                     \<and> d_opened d)\<rparr>)"

definition setIsAnimating :: "MatDrawer \<Rightarrow> bool \<Rightarrow> MatDrawer" where
  "setIsAnimating d isAnimating = d\<lparr>d_classAnimating := isAnimating\<rparr>"

definition setOpen ::
  "drawer_env \<Rightarrow> MatDrawer \<Rightarrow> bool \<Rightarrow> bool \<Rightarrow> FocusOrigin
     \<Rightarrow> MatDrawer \<times> drawer_effect list \<times> MatDrawerToggleResult promise" where
  "setOpen env d isOpen restore focusOrigin =
     (if isOpen = d_opened d then (d, [], Resolved (if isOpen then ResOpen else ResClose))
      else
        let d1 = d\<lparr>d_opened := isOpen\<rparr>;
            (d2, e2) =
              (if (case env_container env of None \<Rightarrow> False | Some cv \<Rightarrow> cv_transitionsEnabled cv)
               then (setIsAnimating d1 True, [])
               else (d1, [ScheduleAnimationEvents]));
            d3 = d2\<lparr>d_classOpened := isOpen\<rparr>;
            (d4, e4) = (if \<not> isOpen \<and> restore then restoreFocus d3 focusOrigin else (d3, []));
            d5 = updateFocusTrapState env d4
        in (d5, e2 @ e4 @ [MarkForCheck], AwaitsOpenedChange))"

text \<open>
  \<^verbatim>\<open>toggle(isOpen = !this.opened, openedVia?)\<close>: an absent first argument is \<open>None\<close>.
\<close>

definition toggle ::
  "drawer_env \<Rightarrow> MatDrawer \<Rightarrow> bool option \<Rightarrow> FocusOrigin option
     \<Rightarrow> MatDrawer \<times> drawer_effect list \<times> MatDrawerToggleResult promise" where
  "toggle env d isOpenArg openedVia =
     (let isOpen = (case isOpenArg of None \<Rightarrow> \<not> d_opened d | Some b \<Rightarrow> b);
          d1 = (if isOpen \<and> openedVia \<noteq> None then d\<lparr>d_openedVia := openedVia\<rparr> else d);
          (d2, effects, result) =
            setOpen env d1 isOpen (\<not> isOpen \<and> env_focusWithin env)
              (case d_openedVia d1 of None \<Rightarrow> Program | Some v \<Rightarrow> v);
          d3 = (if \<not> isOpen then d2\<lparr>d_openedVia := None\<rparr> else d2)
      in (d3, effects, result))"

definition drawer_open ::
  "drawer_env \<Rightarrow> MatDrawer \<Rightarrow> FocusOrigin option
     \<Rightarrow> MatDrawer \<times> drawer_effect list \<times> MatDrawerToggleResult promise" where
  "drawer_open env d openedVia = toggle env d (Some True) openedVia"

definition drawer_close ::
  "drawer_env \<Rightarrow> MatDrawer \<Rightarrow> MatDrawer \<times> drawer_effect list \<times> MatDrawerToggleResult promise" where
  "drawer_close env d = toggle env d (Some False) None"

definition env0 :: drawer_env where
  "env0 = \<lparr>env_container = None, env_focusWithin = True\<rparr>"

section \<open>Tabs (src/aria/private/tabs)\<close>

text \<open>
  Tabs and tablists are objects compared by identity, so they are named by numbers.
  A world holds, for every tablist, the inputs and signals that \<^verbatim>\<open>TabListPattern\<close> reads
  and writes (\<^verbatim>\<open>inputs.items()\<close>, \<^verbatim>\<open>inputs.activeItem\<close>, \<^verbatim>\<open>selectedTab\<close>) and, for every
  tab, its \<^verbatim>\<open>inputs.tablist()\<close>, \<^verbatim>\<open>inputs.value()\<close> and \<^verbatim>\<open>expanded\<close> signal.
\<close>

type_synonym tab_id = nat
type_synonym tablist_id = nat

record TabListPattern =
  tl_items :: "tab_id list"
  tl_activeItem :: "tab_id option"
  tl_selectedTab :: "tab_id option"
  tl_orientationVertical :: bool
  tl_textDirection :: text_direction

record tabs_world =
  tablists :: "tablist_id \<Rightarrow> TabListPattern"
  tab_tablist :: "tab_id \<Rightarrow> tablist_id"
  tab_value :: "tab_id \<Rightarrow> string"
  tab_expanded :: "tab_id \<Rightarrow> bool"

text \<open>\<^verbatim>\<open>TabPattern.selected\<close>: \<^verbatim>\<open>this.inputs.tablist().selectedTab() === this\<close>.\<close>

definition tab_selected :: "tabs_world \<Rightarrow> tab_id \<Rightarrow> bool" where
  "tab_selected w t = (tl_selectedTab (tablists w (tab_tablist w t)) = Some t)"

text \<open>
  The \<^verbatim>\<open>for ... of\<close> loop of \<^verbatim>\<open>setDefaultState\<close> together with the statement after it;
  the result is the value \<^verbatim>\<open>inputs.activeItem\<close> holds when the method returns.
  \<open>isFocusable\<close> is \<^verbatim>\<open>focusBehavior.isFocusable\<close>: the \<^verbatim>\<open>ListFocus\<close> class is not among
  the sources, so the predicate is a parameter.
\<close>

fun setDefaultState_for ::
  "(tab_id \<Rightarrow> bool) \<Rightarrow> (tab_id \<Rightarrow> bool) \<Rightarrow> tab_id list \<Rightarrow> tab_id option \<Rightarrow> tab_id option
     \<Rightarrow> tab_id option" where
  "setDefaultState_for isFocusable selected [] firstItem activeItem =
     (case firstItem of Some f \<Rightarrow> Some f | None \<Rightarrow> activeItem)"
| "setDefaultState_for isFocusable selected (item # rest) firstItem activeItem =
     (if \<not> isFocusable item
      then setDefaultState_for isFocusable selected rest firstItem activeItem
      else
        let firstItem' = (if firstItem = None then Some item else firstItem)
        in if selected item then Some item
           else setDefaultState_for isFocusable selected rest firstItem' activeItem)"

definition setDefaultState :: "(tab_id \<Rightarrow> bool) \<Rightarrow> tabs_world \<Rightarrow> tablist_id \<Rightarrow> tabs_world" where
  "setDefaultState isFocusable w l =
     w\<lparr>tablists := (tablists w)
          (l := (tablists w l)\<lparr>tl_activeItem :=
                   setDefaultState_for isFocusable (tab_selected w) (tl_items (tablists w l))
                     None (tl_activeItem (tablists w l))\<rparr>)\<rparr>"

text \<open>The argument of \<^verbatim>\<open>open(tab: TabPattern | string | undefined)\<close>.\<close>

datatype open_arg = OpenTab tab_id | OpenValue string | OpenDefault

text \<open>
  The first two statements of \<^verbatim>\<open>open\<close>: \<^verbatim>\<open>tab ??= this.activeTab()\<close>, then the lookup
  by value when the argument is a string.
\<close>

definition resolveTab :: "tabs_world \<Rightarrow> tablist_id \<Rightarrow> open_arg \<Rightarrow> tab_id option" where
  "resolveTab w l arg =
     (case arg of
        OpenDefault \<Rightarrow> tl_activeItem (tablists w l)
      | OpenTab t \<Rightarrow> Some t
      | OpenValue v \<Rightarrow> find (\<lambda>t. tab_value w t = v) (tl_items (tablists w l)))"

text \<open>
  \<^verbatim>\<open>TabListPattern.open\<close>. \<open>expansionOpen\<close> is \<^verbatim>\<open>expansionBehavior.open\<close>: the
  \<^verbatim>\<open>ListExpansion\<close> class is not among the sources, so it is a parameter, which reads the
  world and answers with its boolean and the \<^verbatim>\<open>expanded\<close> signals as it leaves them.
\<close>

type_synonym expansion_open = "tabs_world \<Rightarrow> tablist_id \<Rightarrow> tab_id \<Rightarrow> bool \<times> (tab_id \<Rightarrow> bool)"

definition tablist_open ::
  "expansion_open \<Rightarrow> tabs_world \<Rightarrow> tablist_id \<Rightarrow> open_arg \<Rightarrow> tabs_world \<times> bool" where
  "tablist_open expansionOpen w l arg =
     (case resolveTab w l arg of
        None \<Rightarrow> (w, False)
      | Some tab \<Rightarrow>
          let (success, expanded') = expansionOpen w l tab;
              w1 = w\<lparr>tab_expanded := expanded'\<rparr>;
              w2 = (if success
                    then w1\<lparr>tablists := (tablists w1)(l := (tablists w1 l)\<lparr>tl_selectedTab := Some tab\<rparr>)\<rparr>
                    else w1)
          in (w2, success))"

text \<open>\<^verbatim>\<open>TabPattern.open\<close>: \<^verbatim>\<open>this.inputs.tablist().open(this)\<close>.\<close>

definition tab_open :: "expansion_open \<Rightarrow> tabs_world \<Rightarrow> tab_id \<Rightarrow> tabs_world \<times> bool" where
  "tab_open expansionOpen w t = tablist_open expansionOpen w (tab_tablist w t) (OpenTab t)"

text \<open>\<^verbatim>\<open>prevKey\<close> and \<^verbatim>\<open>nextKey\<close> of the tablist.\<close>

definition tablist_prevKey :: "TabListPattern \<Rightarrow> string" where
  "tablist_prevKey tabs =
     (if tl_orientationVertical tabs then ''ArrowUp''
      else if tl_textDirection tabs = Rtl then ''ArrowRight'' else ''ArrowLeft'')"

definition tablist_nextKey :: "TabListPattern \<Rightarrow> string" where
  "tablist_nextKey tabs =
     (if tl_orientationVertical tabs then ''ArrowDown''
      else if tl_textDirection tabs = Rtl then ''ArrowLeft'' else ''ArrowRight'')"

text \<open>
  Examples: one horizontal tablist (number 0) with the tabs 0, 1, 2 valued \<open>a\<close>, \<open>b\<close>,
  \<open>c\<close>, tab 2 selected and no tab active; an expansion behaviour that opens a tab that
  is not yet expanded and closes the others; and one that refuses.
\<close>

definition tabs0 :: tabs_world where
  "tabs0 = \<lparr>tablists = (\<lambda>_. \<lparr>tl_items = [0, 1, 2], tl_activeItem = None, tl_selectedTab = Some 2,
                               tl_orientationVertical = False, tl_textDirection = Ltr\<rparr>),
            tab_tablist = (\<lambda>_. 0),
            tab_value = (\<lambda>t. if t = 0 then ''a'' else if t = 1 then ''b'' else ''c''),
            tab_expanded = (\<lambda>t. t = 2)\<rparr>"

definition expansion_single :: expansion_open where
  "expansion_single w l t =
     (if tab_expanded w t then (False, tab_expanded w) else (True, (\<lambda>u. u = t)))"

definition expansion_refuse :: expansion_open where
  "expansion_refuse w l t = (False, tab_expanded w)"

section \<open>YouTube API loader (src/youtube-player/youtube-api-loader.service.ts)\<close>

text \<open>
  The service owns one \<^verbatim>\<open>ReplaySubject<void>(1)\<close> of the rxjs library for its whole
  life, and \<^verbatim>\<open>load\<close> always returns that subject. The subject is modelled by what its
  observers can see: how many values it has accepted and whether it is still active,
  has completed or has failed. As in rxjs, a subject that has completed or failed is
  stopped: \<^verbatim>\<open>next\<close>, \<^verbatim>\<open>complete\<close> and \<^verbatim>\<open>error\<close> on it do nothing, and whoever subscribes
  later receives the buffered value (at most one here) followed by the completion or
  the error.
\<close>

datatype subject_status = Active | Completed | Errored string

record ReplaySubject =
  rs_values :: nat
  rs_status :: subject_status

definition subject_next :: "ReplaySubject \<Rightarrow> ReplaySubject" where
  "subject_next s = (if rs_status s = Active then s\<lparr>rs_values := Suc (rs_values s)\<rparr> else s)"

definition subject_complete :: "ReplaySubject \<Rightarrow> ReplaySubject" where
  "subject_complete s = (if rs_status s = Active then s\<lparr>rs_status := Completed\<rparr> else s)"

definition subject_error :: "ReplaySubject \<Rightarrow> string \<Rightarrow> ReplaySubject" where
  "subject_error s err = (if rs_status s = Active then s\<lparr>rs_status := Errored err\<rparr> else s)"

text \<open>
  The service: its two fields, the number of script elements it has appended to the
  document, and how many of them have neither loaded nor failed yet.
\<close>

record YouTubeApiLoaderService =
  ys_loaded :: bool
  ys_loading :: ReplaySubject
  ys_injected :: nat
  ys_pending :: nat

definition new_service :: YouTubeApiLoaderService where
  "new_service = \<lparr>ys_loaded = False, ys_loading = \<lparr>rs_values = 0, rs_status = Active\<rparr>,
                   ys_injected = 0, ys_pending = 0\<rparr>"

text \<open>
  \<^verbatim>\<open>load()\<close>: the state it leaves; the observable it returns is \<^verbatim>\<open>loading$\<close> on both
  paths, that is \<open>ys_loading\<close> of the service from then on.
\<close>

definition load :: "YouTubeApiLoaderService \<Rightarrow> YouTubeApiLoaderService" where
  "load svc =
     (if ys_loaded svc then svc
      else svc\<lparr>ys_injected := Suc (ys_injected svc), ys_pending := Suc (ys_pending svc)\<rparr>)"

text \<open>The \<^verbatim>\<open>script.onload\<close> and \<^verbatim>\<open>script.onerror\<close> handlers that \<^verbatim>\<open>load\<close> installs.\<close>

definition script_onload :: "YouTubeApiLoaderService \<Rightarrow> YouTubeApiLoaderService" where
  "script_onload svc =
     svc\<lparr>ys_loaded := True,
         ys_loading := subject_complete (subject_next (ys_loading svc))\<rparr>"

definition script_onerror :: "YouTubeApiLoaderService \<Rightarrow> YouTubeApiLoaderService" where
  "script_onerror svc =
     svc\<lparr>ys_loaded := False,
         ys_loading := subject_error (ys_loading svc) ''Failed to load YouTube API''\<rparr>"

text \<open>
  What can happen to a service: a call of \<^verbatim>\<open>load\<close>, or the browser settling one of the
  injected scripts. A script event with no script pending cannot occur and leaves the
  state alone.
\<close>

datatype loader_event = CallLoad | ScriptLoaded | ScriptFailed

fun loader_step :: "YouTubeApiLoaderService \<Rightarrow> loader_event \<Rightarrow> YouTubeApiLoaderService" where
  "loader_step svc CallLoad = load svc"
| "loader_step svc ScriptLoaded =
     (if ys_pending svc = 0 then svc
      else script_onload (svc\<lparr>ys_pending := ys_pending svc - 1\<rparr>))"
| "loader_step svc ScriptFailed =
     (if ys_pending svc = 0 then svc
      else script_onerror (svc\<lparr>ys_pending := ys_pending svc - 1\<rparr>))"

definition loader_run :: "loader_event list \<Rightarrow> YouTubeApiLoaderService" where
  "loader_run events = foldl loader_step new_service events"

section \<open>Menus (src/aria/private/menu)\<close>

subsection \<open>Objects, inputs and signals\<close>

text \<open>
  Menus, menu items, menu triggers and menubars are objects compared by identity and
  linked by references in both directions, so each is named by a number. \<open>wiring\<close>
  holds the inputs the patterns only read; \<open>mstate\<close> holds what they write.
\<close>

type_synonym menu_id = nat
type_synonym item_id = nat
type_synonym trigger_id = nat
type_synonym bar_id = nat
type_synonym timer_id = nat

text \<open>\<^verbatim>\<open>MenuInputs.parent\<close>: a trigger or a menu item.\<close>

datatype menu_parent = ParentTrigger trigger_id | ParentItem item_id

text \<open>\<^verbatim>\<open>MenuItemInputs.parent\<close>: a menu or a menubar; also the owner of a list behaviour.\<close>

datatype item_parent = ParentMenu menu_id | ParentBar bar_id

text \<open>A defined value of \<^verbatim>\<open>MenuPattern.root\<close>.\<close>

datatype menu_root = RootTrigger trigger_id | RootBar bar_id | RootMenu menu_id

record wiring =
  menu_parent :: "menu_id \<Rightarrow> menu_parent option"
  menu_items :: "menu_id \<Rightarrow> item_id list"
  menu_disabled :: "menu_id \<Rightarrow> bool"
  menu_textDirection :: "menu_id \<Rightarrow> text_direction"
  item_parent :: "item_id \<Rightarrow> item_parent option"
  item_submenu :: "item_id \<Rightarrow> menu_id option"
  item_disabled_input :: "item_id \<Rightarrow> bool"
  trigger_menu :: "trigger_id \<Rightarrow> menu_id option"
  bar_items :: "bar_id \<Rightarrow> item_id list"
  bar_disabled :: "bar_id \<Rightarrow> bool"
  bar_textDirection :: "bar_id \<Rightarrow> text_direction"

text \<open>The callbacks of the two \<^verbatim>\<open>setTimeout\<close> calls, with the menu and the item they close over.\<close>

datatype timer_callback = OpenCallback menu_id item_id | CloseCallback menu_id item_id

text \<open>
  Calls that leave the patterns: \<^verbatim>\<open>root.inputs.onSelect(item.value())\<close>, recorded with the
  root and the item, and \<^verbatim>\<open>element.focus()\<close> on a trigger.
\<close>

datatype menu_effect = OnSelect menu_root item_id | FocusTriggerElement trigger_id

text \<open>
  \<open>item_expanded\<close> is \<^verbatim>\<open>MenuItemPattern._expanded\<close>; the active items are the
  \<^verbatim>\<open>inputs.activeItem\<close> signals of the menus and menubars; \<open>timers\<close> are the pending
  timeouts of the window, by their ids, and \<open>next_timer\<close> the id the next
  \<^verbatim>\<open>setTimeout\<close> returns.
\<close>

record mstate =
  item_expanded :: "item_id \<Rightarrow> bool"
  menu_activeItem :: "menu_id \<Rightarrow> item_id option"
  bar_activeItem :: "bar_id \<Rightarrow> item_id option"
  trigger_expanded :: "trigger_id \<Rightarrow> bool"
  menu_isFocused :: "menu_id \<Rightarrow> bool"
  bar_isFocused :: "bar_id \<Rightarrow> bool"
  menu_hasBeenHovered :: "menu_id \<Rightarrow> bool"
  menu_openTimeout :: "menu_id \<Rightarrow> timer_id option"
  menu_closeTimeout :: "menu_id \<Rightarrow> timer_id option"
  timers :: "(timer_id \<times> timer_callback) list"
  next_timer :: timer_id
  effects :: "menu_effect list"

subsection \<open>The list behaviour\<close>

text \<open>
  The \<^verbatim>\<open>List\<close> class (behaviors/list/list) is not among the sources. Its navigation
  methods are parameters of the model: each reads the inputs and the state of the
  list's owner and answers with the item that is active afterwards. What a list
  behaviour writes is thus its own \<^verbatim>\<open>activeItem\<close> input (and the DOM focus, which the
  model does not hold). The second argument of \<open>lb_goto\<close> is the \<^verbatim>\<open>focusElement\<close> option,
  \<open>None\<close> when the call passes no options.
\<close>

record list_behavior =
  lb_goto :: "wiring \<Rightarrow> mstate \<Rightarrow> item_parent \<Rightarrow> item_id \<Rightarrow> bool option \<Rightarrow> item_id option"
  lb_first :: "wiring \<Rightarrow> mstate \<Rightarrow> item_parent \<Rightarrow> item_id option"
  lb_last :: "wiring \<Rightarrow> mstate \<Rightarrow> item_parent \<Rightarrow> item_id option"
  lb_next :: "wiring \<Rightarrow> mstate \<Rightarrow> item_parent \<Rightarrow> item_id option"
  lb_prev :: "wiring \<Rightarrow> mstate \<Rightarrow> item_parent \<Rightarrow> item_id option"
  lb_unfocus :: "wiring \<Rightarrow> mstate \<Rightarrow> item_parent \<Rightarrow> item_id option"
  lb_search :: "wiring \<Rightarrow> mstate \<Rightarrow> item_parent \<Rightarrow> string \<Rightarrow> item_id option"
  lb_isTyping :: "wiring \<Rightarrow> mstate \<Rightarrow> item_parent \<Rightarrow> bool"

definition active_of :: "mstate \<Rightarrow> item_parent \<Rightarrow> item_id option" where
  "active_of s owner =
     (case owner of ParentMenu m \<Rightarrow> menu_activeItem s m | ParentBar b \<Rightarrow> bar_activeItem s b)"

definition items_of :: "wiring \<Rightarrow> item_parent \<Rightarrow> item_id list" where
  "items_of W owner =
     (case owner of ParentMenu m \<Rightarrow> menu_items W m | ParentBar b \<Rightarrow> bar_items W b)"

definition set_active :: "mstate \<Rightarrow> item_parent \<Rightarrow> item_id option \<Rightarrow> mstate" where
  "set_active s owner v =
     (case owner of
        ParentMenu m \<Rightarrow> s\<lparr>menu_activeItem := (menu_activeItem s)(m := v)\<rparr>
      | ParentBar b \<Rightarrow> s\<lparr>bar_activeItem := (bar_activeItem s)(b := v)\<rparr>)"

definition list_goto ::
  "list_behavior \<Rightarrow> wiring \<Rightarrow> mstate \<Rightarrow> item_parent \<Rightarrow> item_id \<Rightarrow> bool option \<Rightarrow> mstate" where
  "list_goto L W s owner item focusElement = set_active s owner (lb_goto L W s owner item focusElement)"

definition list_first :: "list_behavior \<Rightarrow> wiring \<Rightarrow> mstate \<Rightarrow> item_parent \<Rightarrow> mstate" where
  "list_first L W s owner = set_active s owner (lb_first L W s owner)"

definition list_last :: "list_behavior \<Rightarrow> wiring \<Rightarrow> mstate \<Rightarrow> item_parent \<Rightarrow> mstate" where
  "list_last L W s owner = set_active s owner (lb_last L W s owner)"

definition list_next :: "list_behavior \<Rightarrow> wiring \<Rightarrow> mstate \<Rightarrow> item_parent \<Rightarrow> mstate" where
  "list_next L W s owner = set_active s owner (lb_next L W s owner)"

definition list_prev :: "list_behavior \<Rightarrow> wiring \<Rightarrow> mstate \<Rightarrow> item_parent \<Rightarrow> mstate" where
  "list_prev L W s owner = set_active s owner (lb_prev L W s owner)"

definition list_unfocus :: "list_behavior \<Rightarrow> wiring \<Rightarrow> mstate \<Rightarrow> item_parent \<Rightarrow> mstate" where
  "list_unfocus L W s owner = set_active s owner (lb_unfocus L W s owner)"

definition list_search ::
  "list_behavior \<Rightarrow> wiring \<Rightarrow> mstate \<Rightarrow> item_parent \<Rightarrow> string \<Rightarrow> mstate" where
  "list_search L W s owner k = set_active s owner (lb_search L W s owner k)"

subsection \<open>Computed values of a menu item and of a menu\<close>

text \<open>\<^verbatim>\<open>disabled = () => this.inputs.parent()?.disabled() || this.inputs.disabled()\<close>.\<close>

definition item_disabled :: "wiring \<Rightarrow> item_id \<Rightarrow> bool" where
  "item_disabled W i =
     ((case item_parent W i of
         None \<Rightarrow> False
       | Some (ParentMenu m) \<Rightarrow> menu_disabled W m
       | Some (ParentBar b) \<Rightarrow> bar_disabled W b)
      \<or> item_disabled_input W i)"

text \<open>\<^verbatim>\<open>expanded = computed(() => (this.submenu() ? this._expanded() : null))\<close>; \<open>None\<close> is \<^verbatim>\<open>null\<close>.\<close>

definition expanded :: "wiring \<Rightarrow> mstate \<Rightarrow> item_id \<Rightarrow> bool option" where
  "expanded W s i = (case item_submenu W i of None \<Rightarrow> None | Some sm \<Rightarrow> Some (item_expanded s i))"

definition hasPopup :: "wiring \<Rightarrow> item_id \<Rightarrow> bool" where
  "hasPopup W i = (item_submenu W i \<noteq> None)"

text \<open>\<^verbatim>\<open>visible = computed(() => (this.inputs.parent() ? !!this.inputs.parent()?.expanded() : true))\<close>.\<close>

definition visible :: "wiring \<Rightarrow> mstate \<Rightarrow> menu_id \<Rightarrow> bool" where
  "visible W s m =
     (case menu_parent W m of
        None \<Rightarrow> True
      | Some (ParentTrigger t) \<Rightarrow> trigger_expanded s t
      | Some (ParentItem p) \<Rightarrow> expanded W s p = Some True)"

definition expandKey :: "wiring \<Rightarrow> menu_id \<Rightarrow> string" where
  "expandKey W m = (if menu_textDirection W m = Rtl then ''ArrowLeft'' else ''ArrowRight'')"

definition collapseKey :: "wiring \<Rightarrow> menu_id \<Rightarrow> string" where
  "collapseKey W m = (if menu_textDirection W m = Rtl then ''ArrowRight'' else ''ArrowLeft'')"

definition dynamicSpaceKey :: "list_behavior \<Rightarrow> wiring \<Rightarrow> mstate \<Rightarrow> item_parent \<Rightarrow> string" where
  "dynamicSpaceKey L W s owner = (if lb_isTyping L W s owner then '''' else '' '')"

text \<open>
  \<^verbatim>\<open>typeaheadRegexp = /^.$/\<close>: the key is a single character that is not a line
  terminator.
\<close>

definition typeaheadRegexp :: "string \<Rightarrow> bool" where
  "typeaheadRegexp k = (length k = 1 \<and> hd k \<noteq> CHR 0x0A \<and> hd k \<noteq> CHR 0x0D)"

text \<open>
  \<^verbatim>\<open>root\<close> follows the parent references upwards. On references that never reach a
  menu without parent, a trigger, a menubar or a parentless item it does not return;
  the inner option is the \<^verbatim>\<open>undefined\<close> it yields for an item without parent.
\<close>

partial_function (option) root :: "wiring \<Rightarrow> menu_id \<Rightarrow> menu_root option option" where
  "root W m =
     (case menu_parent W m of
        None \<Rightarrow> Some (Some (RootMenu m))
      | Some (ParentTrigger t) \<Rightarrow> Some (Some (RootTrigger t))
      | Some (ParentItem parent) \<Rightarrow>
          (case item_parent W parent of
             Some (ParentBar grandparent) \<Rightarrow> Some (Some (RootBar grandparent))
           | Some (ParentMenu grandparent) \<Rightarrow> root W grandparent
           | None \<Rightarrow> Some None))"

declare root.simps [code]

definition shouldFocus :: "wiring \<Rightarrow> mstate \<Rightarrow> menu_id \<Rightarrow> bool option" where
  "shouldFocus W s m =
     map_option
       (\<lambda>r. case r of
               Some (RootTrigger t) \<Rightarrow> True
             | Some (RootBar b) \<Rightarrow> bar_isFocused s b
             | Some (RootMenu rm) \<Rightarrow> menu_isFocused s rm
             | None \<Rightarrow> False)
       (root W m)"

subsection \<open>Hover timers\<close>

text \<open>
  \<^verbatim>\<open>setTimeout\<close> registers the callback under a fresh id and returns the id;
  \<^verbatim>\<open>clearTimeout\<close> removes the registration. Browser timer ids are positive, so a
  stored id is truthy and \<open>None\<close> stands for \<^verbatim>\<open>undefined\<close>.
\<close>

definition setTimeout :: "mstate \<Rightarrow> timer_callback \<Rightarrow> mstate \<times> timer_id" where
  "setTimeout s cb =
     (s\<lparr>timers := timers s @ [(next_timer s, cb)], next_timer := Suc (next_timer s)\<rparr>, next_timer s)"

definition clearTimeout :: "mstate \<Rightarrow> timer_id \<Rightarrow> mstate" where
  "clearTimeout s h = s\<lparr>timers := filter (\<lambda>t. fst t \<noteq> h) (timers s)\<rparr>"

definition clearOpenTimeout :: "mstate \<Rightarrow> menu_id \<Rightarrow> mstate" where
  "clearOpenTimeout s m =
     (case menu_openTimeout s m of
        None \<Rightarrow> s
      | Some h \<Rightarrow> (clearTimeout s h)\<lparr>menu_openTimeout := (menu_openTimeout s)(m := None)\<rparr>)"

definition clearCloseTimeout :: "mstate \<Rightarrow> menu_id \<Rightarrow> mstate" where
  "clearCloseTimeout s m =
     (case menu_closeTimeout s m of
        None \<Rightarrow> s
      | Some h \<Rightarrow> (clearTimeout s h)\<lparr>menu_closeTimeout := (menu_closeTimeout s)(m := None)\<rparr>)"

definition clearTimeouts :: "mstate \<Rightarrow> menu_id \<Rightarrow> mstate" where
  "clearTimeouts s m = clearCloseTimeout (clearOpenTimeout s m) m"

text \<open>\<^verbatim>\<open>_closeItem\<close> and \<^verbatim>\<open>_openItem\<close> of the menu \<open>m\<close>; the delay is not part of the state.\<close>

definition closeItem :: "mstate \<Rightarrow> menu_id \<Rightarrow> item_id \<Rightarrow> mstate" where
  "closeItem s m item =
     (let s1 = clearOpenTimeout s m
      in case menu_closeTimeout s1 m of
           Some h \<Rightarrow> s1
         | None \<Rightarrow>
             (let (s2, h) = setTimeout s1 (CloseCallback m item)
              in s2\<lparr>menu_closeTimeout := (menu_closeTimeout s2)(m := Some h)\<rparr>))"

definition openItem :: "mstate \<Rightarrow> menu_id \<Rightarrow> item_id \<Rightarrow> mstate" where
  "openItem s m item =
     (let s1 = clearOpenTimeout s m;
          (s2, h) = setTimeout s1 (OpenCallback m item)
      in s2\<lparr>menu_openTimeout := (menu_openTimeout s2)(m := Some h)\<rparr>)"

subsection \<open>Closing\<close>

text \<open>
  The \<^verbatim>\<open>while (menuitems.length)\<close> loop shared by \<^verbatim>\<open>MenuItemPattern.close\<close> and
  \<^verbatim>\<open>MenuTriggerPattern.close\<close>: \<^verbatim>\<open>pop\<close> takes the last item, the items of its submenu
  are appended. The two loops differ in their last statement only: the item's loop
  clears the timeouts of the popped item's parent menu (\<open>clearing\<close>), the trigger's
  loop does not. The array that \<^verbatim>\<open>items()\<close> returned is taken as a fresh copy, so the
  first \<^verbatim>\<open>pop\<close> does not change the submenu's items. The loop does not return when the
  submenu references form a cycle.
\<close>

text \<open>\<^verbatim>\<open>menuitem?.submenu()?.inputs.items() ?? []\<close>.\<close>

definition submenu_items :: "wiring \<Rightarrow> item_id \<Rightarrow> item_id list" where
  "submenu_items W i = (case item_submenu W i of None \<Rightarrow> [] | Some sm \<Rightarrow> menu_items W sm)"

text \<open>What one turn of the loop does to the state, for the popped \<open>menuitem\<close>.\<close>

definition cascade_step ::
  "list_behavior \<Rightarrow> wiring \<Rightarrow> bool \<Rightarrow> mstate \<Rightarrow> item_id \<Rightarrow> mstate" where
  "cascade_step L W clearing s menuitem =
     (let s1 = s\<lparr>item_expanded := (item_expanded s)(menuitem := False)\<rparr>;
          s2 = (case item_parent W menuitem of
                  None \<Rightarrow> s1
                | Some parent \<Rightarrow> list_unfocus L W s1 parent)
      in case item_parent W menuitem of
           Some (ParentMenu parent) \<Rightarrow> (if clearing then clearTimeouts s2 parent else s2)
         | _ \<Rightarrow> s2)"

partial_function (option) close_cascade ::
  "list_behavior \<Rightarrow> wiring \<Rightarrow> bool \<Rightarrow> mstate \<Rightarrow> item_id list \<Rightarrow> mstate option" where
  "close_cascade L W clearing s menuitems =
     (if menuitems = [] then Some s
      else
        let menuitem = last menuitems
        in close_cascade L W clearing (cascade_step L W clearing s menuitem)
             (butlast menuitems @ submenu_items W menuitem))"

declare close_cascade.simps [code]

text \<open>\<^verbatim>\<open>MenuItemPattern.close(opts)\<close>; \<open>refocus\<close> is \<^verbatim>\<open>opts.refocus\<close>.\<close>

definition item_close ::
  "list_behavior \<Rightarrow> wiring \<Rightarrow> mstate \<Rightarrow> item_id \<Rightarrow> bool \<Rightarrow> mstate option" where
  "item_close L W s i refocus =
     (let s1 = s\<lparr>item_expanded := (item_expanded s)(i := False)\<rparr>;
          s2 = (if refocus
                then (case item_parent W i of
                        None \<Rightarrow> s1
                      | Some parent \<Rightarrow> list_goto L W s1 parent i None)
                else s1)
      in close_cascade L W True s2 (submenu_items W i))"

text \<open>\<^verbatim>\<open>MenuTriggerPattern.close(opts)\<close>.\<close>

definition trigger_close ::
  "list_behavior \<Rightarrow> wiring \<Rightarrow> mstate \<Rightarrow> trigger_id \<Rightarrow> bool \<Rightarrow> mstate option" where
  "trigger_close L W s t refocus =
     (let s1 = s\<lparr>trigger_expanded := (trigger_expanded s)(t := False)\<rparr>;
          s2 = (case trigger_menu W t of
                  None \<Rightarrow> s1
                | Some m \<Rightarrow> list_unfocus L W s1 (ParentMenu m));
          s3 = (if refocus then s2\<lparr>effects := effects s2 @ [FocusTriggerElement t]\<rparr> else s2)
      in close_cascade L W False s3
           (case trigger_menu W t of None \<Rightarrow> [] | Some m \<Rightarrow> menu_items W m))"

text \<open>\<^verbatim>\<open>MenuBarPattern.close\<close>.\<close>

definition bar_close :: "list_behavior \<Rightarrow> wiring \<Rightarrow> mstate \<Rightarrow> bar_id \<Rightarrow> mstate option" where
  "bar_close L W s b =
     (case bar_activeItem s b of
        None \<Rightarrow> Some s
      | Some a \<Rightarrow> item_close L W s a (bar_isFocused s b))"

subsection \<open>Navigation and opening\<close>

text \<open>\<^verbatim>\<open>first\<close>, \<^verbatim>\<open>last\<close>, \<^verbatim>\<open>next\<close> and \<^verbatim>\<open>prev\<close> of \<^verbatim>\<open>MenuPattern\<close>.\<close>

definition close_active :: "list_behavior \<Rightarrow> wiring \<Rightarrow> mstate \<Rightarrow> menu_id \<Rightarrow> mstate option" where
  "close_active L W s m =
     (case menu_activeItem s m of None \<Rightarrow> Some s | Some a \<Rightarrow> item_close L W s a False)"

definition menu_first :: "list_behavior \<Rightarrow> wiring \<Rightarrow> mstate \<Rightarrow> menu_id \<Rightarrow> mstate option" where
  "menu_first L W s m = map_option (\<lambda>s1. list_first L W s1 (ParentMenu m)) (close_active L W s m)"

definition menu_last :: "list_behavior \<Rightarrow> wiring \<Rightarrow> mstate \<Rightarrow> menu_id \<Rightarrow> mstate option" where
  "menu_last L W s m = map_option (\<lambda>s1. list_last L W s1 (ParentMenu m)) (close_active L W s m)"

definition menu_next :: "list_behavior \<Rightarrow> wiring \<Rightarrow> mstate \<Rightarrow> menu_id \<Rightarrow> mstate option" where
  "menu_next L W s m = map_option (\<lambda>s1. list_next L W s1 (ParentMenu m)) (close_active L W s m)"

definition menu_prev :: "list_behavior \<Rightarrow> wiring \<Rightarrow> mstate \<Rightarrow> menu_id \<Rightarrow> mstate option" where
  "menu_prev L W s m = map_option (\<lambda>s1. list_prev L W s1 (ParentMenu m)) (close_active L W s m)"

text \<open>The options of \<^verbatim>\<open>open(opts?: {first?: boolean; last?: boolean})\<close>.\<close>

record open_opts =
  opt_first :: bool
  opt_last :: bool

definition no_opts :: open_opts where
  "no_opts = \<lparr>opt_first = False, opt_last = False\<rparr>"

definition first_opt :: open_opts where
  "first_opt = \<lparr>opt_first = True, opt_last = False\<rparr>"

definition last_opt :: open_opts where
  "last_opt = \<lparr>opt_first = False, opt_last = True\<rparr>"

text \<open>\<^verbatim>\<open>MenuItemPattern.open(opts)\<close>.\<close>

definition item_open ::
  "list_behavior \<Rightarrow> wiring \<Rightarrow> mstate \<Rightarrow> item_id \<Rightarrow> open_opts \<Rightarrow> mstate option" where
  "item_open L W s i opts =
     (if item_disabled W i then Some s
      else
        let s1 = s\<lparr>item_expanded := (item_expanded s)(i := True)\<rparr>
        in Option.bind
             (if opt_first opts
              then (case item_submenu W i of None \<Rightarrow> Some s1 | Some sm \<Rightarrow> menu_first L W s1 sm)
              else Some s1)
             (\<lambda>s2. if opt_last opts
                    then (case item_submenu W i of None \<Rightarrow> Some s2 | Some sm \<Rightarrow> menu_last L W s2 sm)
                    else Some s2))"

text \<open>\<^verbatim>\<open>next\<close> and \<^verbatim>\<open>prev\<close> of \<^verbatim>\<open>MenuBarPattern\<close>; both reopen with \<^verbatim>\<open>{first: true}\<close>.\<close>

definition bar_reopen ::
  "list_behavior \<Rightarrow> wiring \<Rightarrow> item_id option \<Rightarrow> mstate \<Rightarrow> bar_id \<Rightarrow> mstate option" where
  "bar_reopen L W prevItem s1 b =
     (case prevItem of
        None \<Rightarrow> Some s1
      | Some p \<Rightarrow>
          if expanded W s1 p = Some True
          then Option.bind (item_close L W s1 p False)
                 (\<lambda>s2. case bar_activeItem s2 b of
                          None \<Rightarrow> Some s2
                        | Some a \<Rightarrow> item_open L W s2 a first_opt)
          else Some s1)"

definition bar_next :: "list_behavior \<Rightarrow> wiring \<Rightarrow> mstate \<Rightarrow> bar_id \<Rightarrow> mstate option" where
  "bar_next L W s b = bar_reopen L W (bar_activeItem s b) (list_next L W s (ParentBar b)) b"

definition bar_prev :: "list_behavior \<Rightarrow> wiring \<Rightarrow> mstate \<Rightarrow> bar_id \<Rightarrow> mstate option" where
  "bar_prev L W s b = bar_reopen L W (bar_activeItem s b) (list_prev L W s (ParentBar b)) b"

subsection \<open>Behaviours of a menu\<close>

text \<open>
  \<^verbatim>\<open>submit(item = this.inputs.activeItem())\<close>; the argument here is the item after
  defaulting. The three \<^verbatim>\<open>if (!item.submenu() && isX)\<close> statements test kinds of root
  that exclude one another, so they are the branches of one case. The \<open>OnSelect\<close>
  effect stands for the optional call \<^verbatim>\<open>root.inputs.onSelect?.(item.value())\<close>.
\<close>

definition menu_submit ::
  "list_behavior \<Rightarrow> wiring \<Rightarrow> mstate \<Rightarrow> menu_id \<Rightarrow> item_id option \<Rightarrow> mstate option" where
  "menu_submit L W s m item =
     Option.bind (root W m)
       (\<lambda>r. case item of
               None \<Rightarrow> Some s
             | Some it \<Rightarrow>
                 if item_disabled W it then Some s
                 else if item_submenu W it \<noteq> None then Some s
                 else
                   (case r of
                      Some (RootTrigger t) \<Rightarrow> trigger_close L W s t True
                    | Some (RootBar b) \<Rightarrow>
                        map_option (\<lambda>s1. s1\<lparr>effects := effects s1 @ [OnSelect (RootBar b) it]\<rparr>)
                          (bar_close L W s b)
                    | Some (RootMenu rm) \<Rightarrow>
                        map_option (\<lambda>s1. s1\<lparr>effects := effects s1 @ [OnSelect (RootMenu rm) it]\<rparr>)
                          (case menu_activeItem s rm of
                             None \<Rightarrow> Some s
                           | Some a \<Rightarrow> item_close L W s a True)
                    | None \<Rightarrow> Some s))"

text \<open>
  \<^verbatim>\<open>trigger\<close>:
  \<^verbatim>\<open>activeItem()?.hasPopup() ? activeItem()?.open({first: true}) : this.submit()\<close>.
\<close>

definition menu_trigger :: "list_behavior \<Rightarrow> wiring \<Rightarrow> mstate \<Rightarrow> menu_id \<Rightarrow> mstate option" where
  "menu_trigger L W s m =
     (case menu_activeItem s m of
        None \<Rightarrow> menu_submit L W s m None
      | Some a \<Rightarrow>
          if hasPopup W a then item_open L W s a first_opt
          else menu_submit L W s m (Some a))"

definition menu_collapse :: "list_behavior \<Rightarrow> wiring \<Rightarrow> mstate \<Rightarrow> menu_id \<Rightarrow> mstate option" where
  "menu_collapse L W s m =
     Option.bind (root W m)
       (\<lambda>r. case menu_parent W m of
               Some (ParentItem parent) \<Rightarrow>
                 (case item_parent W parent of
                    Some (ParentBar b) \<Rightarrow>
                      (case r of Some (RootBar rb) \<Rightarrow> bar_prev L W s rb | _ \<Rightarrow> Some s)
                  | _ \<Rightarrow> item_close L W s parent True)
             | _ \<Rightarrow> (case r of Some (RootBar rb) \<Rightarrow> bar_prev L W s rb | _ \<Rightarrow> Some s))"

definition menu_expand :: "list_behavior \<Rightarrow> wiring \<Rightarrow> mstate \<Rightarrow> menu_id \<Rightarrow> mstate option" where
  "menu_expand L W s m =
     Option.bind (root W m)
       (\<lambda>r. let otherwise = (case r of Some (RootBar rb) \<Rightarrow> bar_next L W s rb | _ \<Rightarrow> Some s)
             in case menu_activeItem s m of
                  None \<Rightarrow> otherwise
                | Some a \<Rightarrow>
                    if item_submenu W a \<noteq> None then item_open L W s a first_opt
                    else otherwise)"

text \<open>\<^verbatim>\<open>closeAll\<close>: again one case for the three exclusive \<^verbatim>\<open>instanceof\<close> tests.\<close>

definition menu_closeAll :: "list_behavior \<Rightarrow> wiring \<Rightarrow> mstate \<Rightarrow> menu_id \<Rightarrow> mstate option" where
  "menu_closeAll L W s m =
     Option.bind (root W m)
       (\<lambda>r. case r of
               Some (RootTrigger t) \<Rightarrow> trigger_close L W s t True
             | Some (RootBar b) \<Rightarrow> bar_close L W s b
             | Some (RootMenu rm) \<Rightarrow>
                 (case menu_activeItem s rm of
                    None \<Rightarrow> Some s
                  | Some a \<Rightarrow> item_close L W s a True)
             | None \<Rightarrow> Some s)"

subsection \<open>Keyboard dispatch\<close>

text \<open>
  What \<^verbatim>\<open>.on(key, handler)\<close> registers: a key given as a string (or a signal of one,
  read when the manager is built) or the typeahead regular expression.
\<close>

datatype key_matcher = KeyIs string | KeyMatchesTypeahead

definition key_matches :: "key_matcher \<Rightarrow> string \<Rightarrow> bool" where
  "key_matches km k = (case km of KeyIs k' \<Rightarrow> k = k' | KeyMatchesTypeahead \<Rightarrow> typeaheadRegexp k)"

text \<open>
  Modelled from the spec: \<^verbatim>\<open>KeyboardEventManager.handle\<close> (behaviors/event-manager is
  not among the sources). The spec has the event handlers "dispatch to small per-key
  behaviors": the behaviours handled for a key are those registered under a matching
  key, in the order of registration. An event is its \<^verbatim>\<open>key\<close>, pressed without modifier.
\<close>

definition handlers_for :: "(key_matcher \<times> 'a) list \<Rightarrow> string \<Rightarrow> 'a list" where
  "handlers_for manager k = map snd (filter (\<lambda>binding. key_matches (fst binding) k) manager)"

text \<open>The handlers of \<^verbatim>\<open>MenuPattern.keydownManager\<close>, named by the method each one calls.\<close>

datatype menu_behavior =
  DoNext | DoPrev | DoFirst | DoLast | DoTrigger | DoCloseAll | DoExpand | DoCollapse | DoSearch

definition menu_keydownManager ::
  "list_behavior \<Rightarrow> wiring \<Rightarrow> mstate \<Rightarrow> menu_id \<Rightarrow> (key_matcher \<times> menu_behavior) list" where
  "menu_keydownManager L W s m =
     [(KeyIs ''ArrowDown'', DoNext),
      (KeyIs ''ArrowUp'', DoPrev),
      (KeyIs ''Home'', DoFirst),
      (KeyIs ''End'', DoLast),
      (KeyIs ''Enter'', DoTrigger),
      (KeyIs ''Escape'', DoCloseAll),
      (KeyIs (expandKey W m), DoExpand),
      (KeyIs (collapseKey W m), DoCollapse),
      (KeyIs (dynamicSpaceKey L W s (ParentMenu m)), DoTrigger),
      (KeyMatchesTypeahead, DoSearch)]"

fun menu_perform ::
  "list_behavior \<Rightarrow> wiring \<Rightarrow> menu_id \<Rightarrow> string \<Rightarrow> menu_behavior \<Rightarrow> mstate \<Rightarrow> mstate option" where
  "menu_perform L W m k DoNext s = menu_next L W s m"
| "menu_perform L W m k DoPrev s = menu_prev L W s m"
| "menu_perform L W m k DoFirst s = menu_first L W s m"
| "menu_perform L W m k DoLast s = menu_last L W s m"
| "menu_perform L W m k DoTrigger s = menu_trigger L W s m"
| "menu_perform L W m k DoCloseAll s = menu_closeAll L W s m"
| "menu_perform L W m k DoExpand s = menu_expand L W s m"
| "menu_perform L W m k DoCollapse s = menu_collapse L W s m"
| "menu_perform L W m k DoSearch s = Some (list_search L W s (ParentMenu m) k)"

text \<open>Running behaviours one after the other; a behaviour that does not return ends the run.\<close>

fun perform_all :: "('a \<Rightarrow> mstate \<Rightarrow> mstate option) \<Rightarrow> 'a list \<Rightarrow> mstate \<Rightarrow> mstate option" where
  "perform_all perform [] s = Some s"
| "perform_all perform (b # bs) s =
     (case perform b s of None \<Rightarrow> None | Some s' \<Rightarrow> perform_all perform bs s')"

text \<open>\<^verbatim>\<open>MenuPattern.onKeydown\<close>: \<^verbatim>\<open>this.keydownManager().handle(event)\<close>.\<close>

definition menu_onKeydown ::
  "list_behavior \<Rightarrow> wiring \<Rightarrow> mstate \<Rightarrow> menu_id \<Rightarrow> string \<Rightarrow> mstate option" where
  "menu_onKeydown L W s m k =
     perform_all (menu_perform L W m k) (handlers_for (menu_keydownManager L W s m) k) s"

text \<open>The menubar: its two direction keys and its \<^verbatim>\<open>keydownManager\<close>.\<close>

definition bar_nextKey :: "wiring \<Rightarrow> bar_id \<Rightarrow> string" where
  "bar_nextKey W b = (if bar_textDirection W b = Rtl then ''ArrowLeft'' else ''ArrowRight'')"

definition bar_previousKey :: "wiring \<Rightarrow> bar_id \<Rightarrow> string" where
  "bar_previousKey W b = (if bar_textDirection W b = Rtl then ''ArrowRight'' else ''ArrowLeft'')"

datatype bar_behavior =
  BarNext | BarPrev | BarLast | BarFirst | BarOpenFirst | BarOpenLast | BarSearch

definition bar_keydownManager ::
  "list_behavior \<Rightarrow> wiring \<Rightarrow> mstate \<Rightarrow> bar_id \<Rightarrow> (key_matcher \<times> bar_behavior) list" where
  "bar_keydownManager L W s b =
     [(KeyIs (bar_nextKey W b), BarNext),
      (KeyIs (bar_previousKey W b), BarPrev),
      (KeyIs ''End'', BarLast),
      (KeyIs ''Home'', BarFirst),
      (KeyIs ''Enter'', BarOpenFirst),
      (KeyIs ''ArrowUp'', BarOpenLast),
      (KeyIs ''ArrowDown'', BarOpenFirst),
      (KeyIs (dynamicSpaceKey L W s (ParentBar b)), BarOpenFirst),
      (KeyMatchesTypeahead, BarSearch)]"

definition bar_open_active ::
  "list_behavior \<Rightarrow> wiring \<Rightarrow> mstate \<Rightarrow> bar_id \<Rightarrow> open_opts \<Rightarrow> mstate option" where
  "bar_open_active L W s b opts =
     (case bar_activeItem s b of None \<Rightarrow> Some s | Some a \<Rightarrow> item_open L W s a opts)"

fun bar_perform ::
  "list_behavior \<Rightarrow> wiring \<Rightarrow> bar_id \<Rightarrow> string \<Rightarrow> bar_behavior \<Rightarrow> mstate \<Rightarrow> mstate option" where
  "bar_perform L W b k BarNext s = bar_next L W s b"
| "bar_perform L W b k BarPrev s = bar_prev L W s b"
| "bar_perform L W b k BarLast s = Some (list_last L W s (ParentBar b))"
| "bar_perform L W b k BarFirst s = Some (list_first L W s (ParentBar b))"
| "bar_perform L W b k BarOpenFirst s = bar_open_active L W s b first_opt"
| "bar_perform L W b k BarOpenLast s = bar_open_active L W s b last_opt"
| "bar_perform L W b k BarSearch s = Some (list_search L W s (ParentBar b) k)"

definition bar_onKeydown ::
  "list_behavior \<Rightarrow> wiring \<Rightarrow> mstate \<Rightarrow> bar_id \<Rightarrow> string \<Rightarrow> mstate option" where
  "bar_onKeydown L W s b k =
     perform_all (bar_perform L W b k) (handlers_for (bar_keydownManager L W s b) k) s"

text \<open>
  The bindings of \<^verbatim>\<open>TabListPattern.keydown\<close>, named by the navigation each handler
  performs (the navigation behaviour itself is not among the sources).
\<close>

datatype tab_behavior = TabPrev | TabNext | TabFirst | TabLast | TabOpen

definition tablist_keydown :: "TabListPattern \<Rightarrow> (key_matcher \<times> tab_behavior) list" where
  "tablist_keydown tabs =
     [(KeyIs (tablist_prevKey tabs), TabPrev),
      (KeyIs (tablist_nextKey tabs), TabNext),
      (KeyIs ''Home'', TabFirst),
      (KeyIs ''End'', TabLast),
      (KeyIs '' '', TabOpen),
      (KeyIs ''Enter'', TabOpen)]"

subsection \<open>Hovering\<close>

text \<open>
  \<^verbatim>\<open>MenuPattern.onMouseOver(event)\<close>. Of the event only
  \<^verbatim>\<open>i.element()?.contains(event.target)\<close> is used, given as the predicate \<open>hit\<close> on items.
\<close>

definition menu_onMouseOver ::
  "list_behavior \<Rightarrow> wiring \<Rightarrow> mstate \<Rightarrow> menu_id \<Rightarrow> (item_id \<Rightarrow> bool) \<Rightarrow> mstate option" where
  "menu_onMouseOver L W s m hit =
     (if \<not> visible W s m then Some s
      else
        let s1 = s\<lparr>menu_hasBeenHovered := (menu_hasBeenHovered s)(m := True)\<rparr>
        in case find hit (menu_items W m) of
             None \<Rightarrow> Some s1
           | Some item \<Rightarrow>
               let activeItem = menu_activeItem s1 m;
                   s2 = (case menu_parent W m of
                           Some (ParentItem parent) \<Rightarrow>
                             (case item_parent W parent of
                                Some (ParentMenu grandparent) \<Rightarrow>
                                  list_goto L W (clearTimeouts s1 grandparent)
                                    (ParentMenu grandparent) parent (Some False)
                              | _ \<Rightarrow> s1)
                         | _ \<Rightarrow> s1);
                   s3 = (case activeItem of
                           None \<Rightarrow> s2
                         | Some a \<Rightarrow> if a \<noteq> item then closeItem s2 m a else s2);
                   s4 = (if expanded W s3 item = Some True then clearCloseTimeout s3 m else s3);
                   s5 = openItem s4 m item
               in map_option (\<lambda>focusElement. list_goto L W s5 (ParentMenu m) item (Some focusElement))
                    (shouldFocus W s5 m))"

text \<open>
  A pending timeout fires: its registration is gone and its callback runs, which is
  \<^verbatim>\<open>item.open(); this._openTimeout = undefined\<close> or
  \<^verbatim>\<open>item.close(); this._closeTimeout = undefined\<close>. An id that is not pending cannot fire.
\<close>

definition fire_timer :: "list_behavior \<Rightarrow> wiring \<Rightarrow> mstate \<Rightarrow> timer_id \<Rightarrow> mstate option" where
  "fire_timer L W s h =
     (case map_of (timers s) h of
        None \<Rightarrow> Some s
      | Some (OpenCallback m item) \<Rightarrow>
          map_option (\<lambda>s2. s2\<lparr>menu_openTimeout := (menu_openTimeout s2)(m := None)\<rparr>)
            (item_open L W (clearTimeout s h) item no_opts)
      | Some (CloseCallback m item) \<Rightarrow>
          map_option (\<lambda>s2. s2\<lparr>menu_closeTimeout := (menu_closeTimeout s2)(m := None)\<rparr>)
            (item_close L W (clearTimeout s h) item False))"

subsection \<open>Tab indices\<close>

text \<open>
  Modelled from the spec: \<^verbatim>\<open>List.getItemTabindex\<close> and \<^verbatim>\<open>ListFocus.getItemTabIndex\<close>
  (behaviors/list and behaviors/list-focus are not among the sources). The pattern
  classes only call the function, so it is a parameter \<open>G\<close> of the three \<^verbatim>\<open>tabIndex\<close>
  computations: \<open>G l a i\<close> is the index that the list \<open>l\<close>, whose active item is \<open>a\<close>,
  gives to its item \<open>i\<close>. The glossary's roving tabindex has "only one item in a widget
  tab-focusable at a time": \<open>roving G\<close> says of every list that an index is 0 or -1 and
  is 0 for the list's active item only, and \<open>getItemTabindex\<close> is the function that gives
  the active item 0 and every other item -1.
\<close>

definition roving :: "('l \<Rightarrow> nat option \<Rightarrow> nat \<Rightarrow> int) \<Rightarrow> bool" where
  "roving G = (\<forall>l a i. (G l a i = 0 \<or> G l a i = - 1) \<and> (G l a i = 0 \<longrightarrow> a = Some i))"

definition getItemTabindex :: "'l \<Rightarrow> nat option \<Rightarrow> nat \<Rightarrow> int" where
  "getItemTabindex l activeItem item = (if activeItem = Some item then 0 else - 1)"

text \<open>\<^verbatim>\<open>MenuItemPattern.tabIndex\<close>; the list is the one of the item's parent.\<close>

definition item_tabIndex ::
  "(item_parent \<Rightarrow> item_id option \<Rightarrow> item_id \<Rightarrow> int) \<Rightarrow> wiring \<Rightarrow> mstate \<Rightarrow> item_id \<Rightarrow> int" where
  "item_tabIndex G W s i =
     (if (case item_submenu W i of None \<Rightarrow> False | Some sm \<Rightarrow> menu_activeItem s sm \<noteq> None)
      then - 1
      else (case item_parent W i of
              None \<Rightarrow> - 1
            | Some parent \<Rightarrow> G parent (active_of s parent) i))"

text \<open>\<^verbatim>\<open>TabPattern.tabIndex\<close>; the list is the one of the tab's tablist.\<close>

definition tab_tabIndex ::
  "(tablist_id \<Rightarrow> tab_id option \<Rightarrow> tab_id \<Rightarrow> int) \<Rightarrow> tabs_world \<Rightarrow> tab_id \<Rightarrow> int" where
  "tab_tabIndex G w t = G (tab_tablist w t) (tl_activeItem (tablists w (tab_tablist w t))) t"

text \<open>
  \<^verbatim>\<open>TreeItemPattern.tabIndex\<close>: the item's \<^verbatim>\<open>tree()\<close> and that tree's active item, which
  is the \<^verbatim>\<open>activeItem\<close> input of its list behaviour.
\<close>

record tree_world =
  treeitem_tree :: "nat \<Rightarrow> nat"
  tree_activeItem :: "nat \<Rightarrow> nat option"

definition treeitem_tabIndex ::
  "(nat \<Rightarrow> nat option \<Rightarrow> nat \<Rightarrow> int) \<Rightarrow> tree_world \<Rightarrow> nat \<Rightarrow> int" where
  "treeitem_tabIndex G w i = G (treeitem_tree w i) (tree_activeItem w (treeitem_tree w i)) i"

subsection \<open>References that end\<close>

text \<open>
  The closing loop returns when the submenu references are acyclic, and \<^verbatim>\<open>root\<close>
  returns when the parent references are: each is stated with a rank that the
  references decrease. \<open>below W X\<close> are the items the closing loop visits from the
  work list \<open>X\<close>: the items of \<open>X\<close> and all items of submenus beneath them.
\<close>

definition descending :: "wiring \<Rightarrow> (item_id \<Rightarrow> nat) \<Rightarrow> bool" where
  "descending W rank =
     (\<forall>i sm j. item_submenu W i = Some sm \<longrightarrow> j \<in> set (menu_items W sm) \<longrightarrow> rank j < rank i)"

definition ascending :: "wiring \<Rightarrow> (menu_id \<Rightarrow> nat) \<Rightarrow> bool" where
  "ascending W rank =
     (\<forall>m p g. menu_parent W m = Some (ParentItem p) \<longrightarrow> item_parent W p = Some (ParentMenu g)
        \<longrightarrow> rank g < rank m)"

inductive_set below :: "wiring \<Rightarrow> item_id set \<Rightarrow> item_id set" for W :: wiring and X :: "item_id set" where
  start: "i \<in> X \<Longrightarrow> i \<in> below W X"
| step: "i \<in> below W X \<Longrightarrow> item_submenu W i = Some sm \<Longrightarrow> j \<in> set (menu_items W sm)
          \<Longrightarrow> j \<in> below W X"

text \<open>
  Every pending timeout is the one its menu's field names, and its id has been handed
  out: no timeout is pending that the menu has lost track of.
\<close>

definition tracked :: "mstate \<Rightarrow> bool" where
  "tracked s =
     (distinct (map fst (timers s))
      \<and> (\<forall>t \<in> set (timers s). fst t < next_timer s)
      \<and> (\<forall>h m i. (h, OpenCallback m i) \<in> set (timers s) \<longrightarrow> menu_openTimeout s m = Some h)
      \<and> (\<forall>h m i. (h, CloseCallback m i) \<in> set (timers s) \<longrightarrow> menu_closeTimeout s m = Some h))"

text \<open>
  No timeout id is stored in two fields, and every stored id has been handed out.
  \<^verbatim>\<open>setTimeout\<close> never hands out an id twice, and a field is only ever assigned the
  id that \<^verbatim>\<open>setTimeout\<close> has just returned, or \<^verbatim>\<open>undefined\<close>.
\<close>

definition separate :: "mstate \<Rightarrow> bool" where
  "separate s =
     ((\<forall>m h. menu_openTimeout s m = Some h \<longrightarrow> h < next_timer s)
      \<and> (\<forall>m h. menu_closeTimeout s m = Some h \<longrightarrow> h < next_timer s)
      \<and> (\<forall>m m' h. menu_openTimeout s m = Some h \<longrightarrow> menu_openTimeout s m' = Some h \<longrightarrow> m = m')
      \<and> (\<forall>m m' h. menu_closeTimeout s m = Some h \<longrightarrow> menu_closeTimeout s m' = Some h \<longrightarrow> m = m')
      \<and> (\<forall>m m' h. menu_openTimeout s m = Some h \<longrightarrow> menu_closeTimeout s m' \<noteq> Some h))"

text \<open>
  What closing, opening and list navigation do to the timeout fields at most: no id
  is handed out, and a field is either reset to \<^verbatim>\<open>undefined\<close> or left as it is.
\<close>

definition only_cleared :: "mstate \<Rightarrow> mstate \<Rightarrow> bool" where
  "only_cleared s s' =
     (next_timer s' = next_timer s
      \<and> (\<forall>m. menu_openTimeout s' m = None \<or> menu_openTimeout s' m = menu_openTimeout s m)
      \<and> (\<forall>m. menu_closeTimeout s' m = None \<or> menu_closeTimeout s' m = menu_closeTimeout s m))"

text \<open>
  What closing and list navigation leave alone: the triggers, the effects, the timer
  counter and the focus flags stay as they are, no timeout is added, and tracked
  timeouts stay tracked.
\<close>

definition undisturbed :: "mstate \<Rightarrow> mstate \<Rightarrow> bool" where
  "undisturbed s s' =
     (trigger_expanded s' = trigger_expanded s \<and> effects s' = effects s
      \<and> next_timer s' = next_timer s \<and> menu_isFocused s' = menu_isFocused s
      \<and> bar_isFocused s' = bar_isFocused s \<and> set (timers s') \<subseteq> set (timers s)
      \<and> (tracked s \<longrightarrow> tracked s'))"

text \<open>
  The items that \<^verbatim>\<open>closeAll\<close> marks as not expanded, by the root it finds: every item
  beneath a trigger's menu, but for a menubar or a parentless menu only the root's
  active item and the items beneath it.
\<close>

definition closeAll_closes :: "wiring \<Rightarrow> mstate \<Rightarrow> menu_root option \<Rightarrow> item_id set" where
  "closeAll_closes W s r =
     (case r of
        None \<Rightarrow> {}
      | Some (RootTrigger t) \<Rightarrow>
          below W (set (case trigger_menu W t of None \<Rightarrow> [] | Some tm \<Rightarrow> menu_items W tm))
      | Some (RootBar b) \<Rightarrow> (case bar_activeItem s b of None \<Rightarrow> {} | Some a \<Rightarrow> below W {a})
      | Some (RootMenu rm) \<Rightarrow> (case menu_activeItem s rm of None \<Rightarrow> {} | Some a \<Rightarrow> below W {a}))"

subsection \<open>Examples\<close>

text \<open>
  A list behaviour for the examples: it goes where it is told, \<^verbatim>\<open>first\<close> and \<^verbatim>\<open>last\<close> take
  the ends of the item list, \<^verbatim>\<open>next\<close>, \<^verbatim>\<open>prev\<close> and \<^verbatim>\<open>search\<close> stay, \<^verbatim>\<open>unfocus\<close> clears, and
  nobody is typing.
\<close>

definition plain_list :: list_behavior where
  "plain_list =
     \<lparr>lb_goto = (\<lambda>W s owner item focusElement. Some item),
      lb_first = (\<lambda>W s owner. case items_of W owner of [] \<Rightarrow> None | x # xs \<Rightarrow> Some x),
      lb_last = (\<lambda>W s owner. case rev (items_of W owner) of [] \<Rightarrow> None | x # xs \<Rightarrow> Some x),
      lb_next = (\<lambda>W s owner. active_of s owner),
      lb_prev = (\<lambda>W s owner. active_of s owner),
      lb_unfocus = (\<lambda>W s owner. None),
      lb_search = (\<lambda>W s owner k. active_of s owner),
      lb_isTyping = (\<lambda>W s owner. False)\<rparr>"

text \<open>
  Wiring for the examples. Menu 0 has no parent and holds the items 0, 1, 2; item 0
  opens menu 7 (item 12), item 1 opens menu 1 (items 3, 4), item 3 opens menu 2
  (item 5), and the disabled item 2 opens the empty menu 3. Trigger 0 opens menu 4
  (items 6, 7), whose item 7 opens menu 5 (item 8). Menubar 0 holds the items 9, 10;
  item 9 opens menu 6 (item 11).
\<close>

definition wiring0 :: wiring where
  "wiring0 =
     \<lparr>menu_parent = (\<lambda>m. if m = 1 then Some (ParentItem 1) else if m = 2 then Some (ParentItem 3)
                          else if m = 3 then Some (ParentItem 2) else if m = 4 then Some (ParentTrigger 0)
                          else if m = 5 then Some (ParentItem 7) else if m = 6 then Some (ParentItem 9)
                          else if m = 7 then Some (ParentItem 0) else None),
      menu_items = (\<lambda>m. if m = 0 then [0, 1, 2] else if m = 1 then [3, 4] else if m = 2 then [5]
                         else if m = 4 then [6, 7] else if m = 5 then [8] else if m = 6 then [11]
                         else if m = 7 then [12] else []),
      menu_disabled = (\<lambda>m. False),
      menu_textDirection = (\<lambda>m. Ltr),
      item_parent = (\<lambda>i. if i \<le> 2 then Some (ParentMenu 0) else if i \<le> 4 then Some (ParentMenu 1)
                          else if i = 5 then Some (ParentMenu 2) else if i \<le> 7 then Some (ParentMenu 4)
                          else if i = 8 then Some (ParentMenu 5) else if i \<le> 10 then Some (ParentBar 0)
                          else if i = 11 then Some (ParentMenu 6) else if i = 12 then Some (ParentMenu 7)
                          else None),
      item_submenu = (\<lambda>i. if i = 0 then Some 7 else if i = 1 then Some 1 else if i = 3 then Some 2
                           else if i = 2 then Some 3 else if i = 7 then Some 5 else if i = 9 then Some 6
                           else None),
      item_disabled_input = (\<lambda>i. i = 2),
      trigger_menu = (\<lambda>t. if t = 0 then Some 4 else None),
      bar_items = (\<lambda>b. if b = 0 then [9, 10] else []),
      bar_disabled = (\<lambda>b. False),
      bar_textDirection = (\<lambda>b. Ltr)\<rparr>"

definition item_rank0 :: "item_id \<Rightarrow> nat" where
  "item_rank0 i = (if i = 1 then 2 else if i = 0 \<or> i = 3 \<or> i = 2 \<or> i = 7 \<or> i = 9 then 1 else 0)"

definition menu_rank0 :: "menu_id \<Rightarrow> nat" where
  "menu_rank0 m = (if m = 2 then 2 else if m = 1 \<or> m = 3 \<or> m = 5 \<or> m = 7 then 1 else 0)"

text \<open>A state for the examples: nothing expanded, nothing active, no timeout pending.\<close>

definition state0 :: mstate where
  "state0 =
     \<lparr>item_expanded = (\<lambda>i. False), menu_activeItem = (\<lambda>m. None), bar_activeItem = (\<lambda>b. None),
      trigger_expanded = (\<lambda>t. False), menu_isFocused = (\<lambda>m. False), bar_isFocused = (\<lambda>b. False),
      menu_hasBeenHovered = (\<lambda>m. False), menu_openTimeout = (\<lambda>m. None),
      menu_closeTimeout = (\<lambda>m. None), timers = [], next_timer = 1, effects = []\<rparr>"

text \<open>The pointer is over the element of item \<open>i\<close> and of no other item.\<close>

definition hit_item :: "item_id \<Rightarrow> item_id \<Rightarrow> bool" where
  "hit_item i j = (j = i)"

text \<open>
  The state after hovering item 0 of menu 0, letting its open timeout (id 1) fire, and
  moving the pointer on to item 1: item 0 is still expanded, item 1 is active, and the
  timeouts 2 (close item 0) and 3 (open item 1) are pending.
\<close>

definition hovered_state :: mstate where
  "hovered_state =
     state0\<lparr>item_expanded := (\<lambda>i. i = 0),
            menu_activeItem := (\<lambda>m. if m = 0 then Some 1 else None),
            menu_hasBeenHovered := (\<lambda>m. m = 0),
            menu_openTimeout := (\<lambda>m. if m = 0 then Some 3 else None),
            menu_closeTimeout := (\<lambda>m. if m = 0 then Some 2 else None),
            timers := [(2, CloseCallback 0 0), (3, OpenCallback 0 1)],
            next_timer := 4\<rparr>"

text \<open>
  The menu of trigger 0 is open down to its submenu: the items 7 and 8 are marked
  expanded and the keyboard is in menu 5.
\<close>

definition trigger_state :: mstate where
  "trigger_state =
     state0\<lparr>item_expanded := (\<lambda>i. i = 7 \<or> i = 8),
            menu_activeItem := (\<lambda>m. if m = 4 then Some 7 else if m = 5 then Some 8 else None),
            trigger_expanded := (\<lambda>t. t = 0)\<rparr>"

text \<open>
  From \<open>hovered_state\<close>, Enter in menu 0 opens the submenu of the active item 1 and makes
  its first item active; then the pointer moves back onto item 0 of menu 0.
\<close>

definition entered_state :: mstate where
  "entered_state = the (menu_onKeydown plain_list wiring0 hovered_state 0 ''Enter'')"

definition two_stops_state :: mstate where
  "two_stops_state = the (menu_onMouseOver plain_list wiring0 entered_state 0 (hit_item 0))"

text \<open>The disabled item 2 of menu 0, which has a submenu, is the active item.\<close>

definition disabled_active_state :: mstate where
  "disabled_active_state = state0\<lparr>menu_activeItem := (\<lambda>m. if m = 0 then Some 2 else None)\<rparr>"

text \<open>The example wiring read right to left, and two tablists that differ in direction.\<close>

definition wiring_rtl :: wiring where
  "wiring_rtl = wiring0\<lparr>menu_textDirection := (\<lambda>m. Rtl), bar_textDirection := (\<lambda>b. Rtl)\<rparr>"

definition tablist_ltr :: TabListPattern where
  "tablist_ltr = \<lparr>tl_items = [0, 1, 2], tl_activeItem = Some 1, tl_selectedTab = Some 1,
                   tl_orientationVertical = False, tl_textDirection = Ltr\<rparr>"

definition tablist_rtl :: TabListPattern where
  "tablist_rtl = tablist_ltr\<lparr>tl_textDirection := Rtl\<rparr>"

text \<open>A tree whose items all belong to tree 0, with item 4 active.\<close>

definition tree0 :: tree_world where
  "tree0 = \<lparr>treeitem_tree = (\<lambda>i. 0), tree_activeItem = (\<lambda>t. if t = 0 then Some 4 else None)\<rparr>"

chapter \<open>Results\<close>

section \<open>Drawer validation\<close>

lemma validate_forEach_production:
  "\<not> devModeOn nd \<Longrightarrow> \<exists>c'. validate_forEach nd ds c = Inr c'"
  by (induction ds arbitrary: c) auto

lemma validate_forEach_throws_iff:
  "devModeOn nd \<Longrightarrow>
     (\<exists>e. validate_forEach nd ds c = Inl e) \<longleftrightarrow>
       (\<not> distinct (map d_position ds)
        \<or> (c_end c \<noteq> None \<and> PosEnd \<in> d_position ` set ds)
        \<or> (c_start c \<noteq> None \<and> PosStart \<in> d_position ` set ds))"
proof (induction ds arbitrary: c)
  case Nil
  then show ?case by simp
next
  case (Cons d ds)
  have two: "\<And>p. p \<noteq> PosEnd \<longleftrightarrow> p = PosStart"
    by (metis drawer_position.exhaust drawer_position.distinct(1))
  show ?case
  proof (cases "d_position d = PosEnd")
    case True
    then show ?thesis
      using Cons.prems Cons.IH [of "c\<lparr>c_end := Some d\<rparr>"] two
      by (auto simp: image_iff)
  next
    case False
    then have "d_position d = PosStart" using two by blast
    then show ?thesis
      using Cons.prems Cons.IH [of "c\<lparr>c_start := Some d\<rparr>"] two
      by (auto simp: image_iff)
  qed
qed

lemma validate_forEach_message:
  "validate_forEach nd ds c = Inl e \<Longrightarrow>
     (e = throwMatDuplicatedDrawerError ''end'' \<and> PosEnd \<in> d_position ` set ds
        \<and> (c_end c \<noteq> None \<or> 2 \<le> count_list (map d_position ds) PosEnd))
     \<or> (e = throwMatDuplicatedDrawerError ''start'' \<and> PosStart \<in> d_position ` set ds
        \<and> (c_start c \<noteq> None \<or> 2 \<le> count_list (map d_position ds) PosStart))"
proof (induction ds arbitrary: c)
  case Nil
  then show ?case by simp
next
  case (Cons d ds)
  show ?case
  proof (cases "d_position d = PosEnd")
    case True
    show ?thesis
    proof (cases "c_end c \<noteq> None \<and> devModeOn nd")
      case True
      with \<open>d_position d = PosEnd\<close> Cons.prems show ?thesis by auto
    next
      case False
      with \<open>d_position d = PosEnd\<close> Cons.prems
      have "validate_forEach nd ds (c\<lparr>c_end := Some d\<rparr>) = Inl e" by auto
      from Cons.IH [OF this] \<open>d_position d = PosEnd\<close> show ?thesis
        by (auto simp: count_list_0_iff image_iff Suc_le_eq)
    qed
  next
    case False
    note notEnd = this
    show ?thesis
    proof (cases "c_start c \<noteq> None \<and> devModeOn nd")
      case True
      with notEnd Cons.prems show ?thesis
        by (cases "d_position d") auto
    next
      case False
      with notEnd Cons.prems
      have "validate_forEach nd ds (c\<lparr>c_start := Some d\<rparr>) = Inl e" by auto
      from Cons.IH [OF this] notEnd show ?thesis
        by (cases "d_position d") (auto simp: count_list_0_iff image_iff Suc_le_eq)
    qed
  qed
qed

text \<open>
  C6, as amended. With the development-mode guard on, \<^verbatim>\<open>_validateDrawers\<close> throws
  exactly when two drawers of the list share a position; with the guard off it never
  throws; and whenever it throws, the message is the one
  \<^verbatim>\<open>throwMatDuplicatedDrawerError\<close> builds for a position that occurs at least twice.
\<close>

theorem validateDrawers_duplicate_error:
  "(devModeOn nd \<longrightarrow>
      ((\<exists>e. validateDrawers nd dir ds c = Inl e) \<longleftrightarrow> \<not> distinct (map d_position ds)))
   \<and> (\<not> devModeOn nd \<longrightarrow> (\<exists>c'. validateDrawers nd dir ds c = Inr c'))
   \<and> (\<forall>e. validateDrawers nd dir ds c = Inl e \<longrightarrow>
         (\<exists>p. e = throwMatDuplicatedDrawerError (position_name p)
              \<and> 2 \<le> count_list (map d_position ds) p))"
proof (intro conjI impI allI)
  let ?c0 = "c\<lparr>c_start := None, c_end := None\<rparr>"
  have shape: "\<And>e. validateDrawers nd dir ds c = Inl e \<longleftrightarrow> validate_forEach nd ds ?c0 = Inl e"
    by (auto simp: validateDrawers_def split: sum.splits)
  {
    assume dev: "devModeOn nd"
    show "(\<exists>e. validateDrawers nd dir ds c = Inl e) \<longleftrightarrow> \<not> distinct (map d_position ds)"
      using validate_forEach_throws_iff [OF dev, of ds ?c0] shape by simp
  }
  {
    assume "\<not> devModeOn nd"
    then obtain c' where "validate_forEach nd ds ?c0 = Inr c'"
      using validate_forEach_production by blast
    then show "\<exists>c'. validateDrawers nd dir ds c = Inr c'"
      by (simp add: validateDrawers_def)
  }
  {
    fix e assume "validateDrawers nd dir ds c = Inl e"
    then have "validate_forEach nd ds ?c0 = Inl e" using shape by simp
    from validate_forEach_message [OF this]
    consider (dup_end) "e = throwMatDuplicatedDrawerError ''end''"
        "2 \<le> count_list (map d_position ds) PosEnd"
      | (dup_start) "e = throwMatDuplicatedDrawerError ''start''"
        "2 \<le> count_list (map d_position ds) PosStart"
      by auto
    then show "\<exists>p. e = throwMatDuplicatedDrawerError (position_name p)
              \<and> 2 \<le> count_list (map d_position ds) p"
    proof cases
      case dup_end
      then show ?thesis
        by (intro exI [of _ PosEnd]) (simp add: position_name_def)
    next
      case dup_start
      then show ?thesis
        by (intro exI [of _ PosStart]) (simp add: position_name_def)
    qed
  }
qed

theorem validateDrawers_duplicate_error_witness:
  "devModeOn None
   \<and> \<not> distinct (map d_position [drawer0 PosStart, drawer0 PosEnd, drawer0 PosEnd])
   \<and> validateDrawers None (Some Rtl) [drawer0 PosStart, drawer0 PosEnd, drawer0 PosEnd] container0
       = Inl (throwMatDuplicatedDrawerError ''end'')
   \<and> (\<exists>c'. validateDrawers (Some False) None [drawer0 PosEnd, drawer0 PosEnd] container0 = Inr c')"
  using validateDrawers_duplicate_error
          [of None "Some Rtl" "[drawer0 PosStart, drawer0 PosEnd, drawer0 PosEnd]" container0]
        validateDrawers_duplicate_error
          [of "Some False" None "[drawer0 PosEnd, drawer0 PosEnd]" container0]
  by (simp add: devModeOn_def drawer0_def validateDrawers_def container0_def)

text \<open>
  C6 as stated fails where the guard is off (\<^verbatim>\<open>ngDevMode\<close> defined and false): two
  drawers at \<^verbatim>\<open>end\<close> are accepted, the later one taking the slot.
\<close>

theorem validateDrawers_production_counterexample:
  "\<not> distinct (map d_position [drawer0 PosEnd, (drawer0 PosEnd)\<lparr>d_opened := True\<rparr>])
   \<and> validateDrawers (Some False) None [drawer0 PosEnd, (drawer0 PosEnd)\<lparr>d_opened := True\<rparr>] container0
       = Inr \<lparr>c_start = None, c_end = Some ((drawer0 PosEnd)\<lparr>d_opened := True\<rparr>),
              c_left = None, c_right = Some ((drawer0 PosEnd)\<lparr>d_opened := True\<rparr>)\<rparr>"
  by (simp add: devModeOn_def drawer0_def validateDrawers_def container0_def)

section \<open>Drawer toggling\<close>

lemma toggle_to_other_state:
  "toggle env0 (drawer0 PosStart) None (Some Keyboard)
     = ((drawer0 PosStart)\<lparr>d_opened := True, d_openedVia := Some Keyboard, d_classOpened := True\<rparr>,
        [ScheduleAnimationEvents, MarkForCheck], AwaitsOpenedChange)"
  by (simp add: toggle_def setOpen_def env0_def drawer0_def updateFocusTrapState_def)

text \<open>
  C10, as amended. Toggling a drawer to the state it is already in returns a promise
  that is already resolved, to \<^verbatim>\<open>open\<close> or \<^verbatim>\<open>close\<close> as that state is, with no effect
  outside the drawer (no animation events scheduled, no focus moved, no change
  detection) and with every field of the drawer as before, except the recorded
  origin \<^verbatim>\<open>_openedVia\<close>: opening with an origin stores it, closing clears it.
\<close>

theorem toggle_same_state:
  "toggle env d (Some (d_opened d)) via
     = (d\<lparr>d_openedVia := (if d_opened d
                            then (case via of None \<Rightarrow> d_openedVia d | Some v \<Rightarrow> Some v)
                            else None)\<rparr>,
        [], Resolved (if d_opened d then ResOpen else ResClose))
   \<and> (d_opened d \<longrightarrow>
        drawer_open env d via
          = (d\<lparr>d_openedVia := (case via of None \<Rightarrow> d_openedVia d | Some v \<Rightarrow> Some v)\<rparr>,
             [], Resolved ResOpen))
   \<and> (\<not> d_opened d \<longrightarrow>
        drawer_close env d = (d\<lparr>d_openedVia := None\<rparr>, [], Resolved ResClose))"
  by (cases via) (auto simp: toggle_def setOpen_def drawer_open_def drawer_close_def)

theorem toggle_same_state_witness:
  "\<not> d_opened (drawer0 PosStart)
   \<and> drawer_close env0 (drawer0 PosStart) = (drawer0 PosStart, [], Resolved ResClose)
   \<and> drawer_open env0 ((drawer0 PosEnd)\<lparr>d_opened := True\<rparr>) None
        = ((drawer0 PosEnd)\<lparr>d_opened := True\<rparr>, [], Resolved ResOpen)"
  using toggle_same_state [of env0 "drawer0 PosStart" None]
        toggle_same_state [of env0 "(drawer0 PosEnd)\<lparr>d_opened := True\<rparr>" None]
  by (simp add: drawer0_def)

text \<open>
  C10 as stated fails on \<^verbatim>\<open>_openedVia\<close>: a drawer opened by mouse and opened again
  from the keyboard stays open and resolves at once, but records the new origin.
\<close>

theorem toggle_same_state_counterexample:
  "d_opened ((drawer0 PosStart)\<lparr>d_opened := True, d_openedVia := Some Mouse\<rparr>)
   \<and> drawer_open env0 ((drawer0 PosStart)\<lparr>d_opened := True, d_openedVia := Some Mouse\<rparr>)
        (Some Keyboard)
      = ((drawer0 PosStart)\<lparr>d_opened := True, d_openedVia := Some Keyboard\<rparr>,
         [], Resolved ResOpen)
   \<and> (drawer0 PosStart)\<lparr>d_opened := True, d_openedVia := Some Keyboard\<rparr>
      \<noteq> (drawer0 PosStart)\<lparr>d_opened := True, d_openedVia := Some Mouse\<rparr>"
  by (simp add: drawer_open_def toggle_def setOpen_def drawer0_def)

section \<open>Tablist: default state and opening\<close>

lemma setDefaultState_for_first_given:
  "setDefaultState_for F S items (Some f) a
     = (case find (\<lambda>t. F t \<and> S t) items of Some t \<Rightarrow> Some t | None \<Rightarrow> Some f)"
  by (induction items) (auto simp: Let_def)

lemma setDefaultState_for_none:
  "setDefaultState_for F S items None a
     = (case find (\<lambda>t. F t \<and> S t) items of
          Some t \<Rightarrow> Some t
        | None \<Rightarrow> (case find F items of Some t \<Rightarrow> Some t | None \<Rightarrow> a))"
proof (induction items)
  case Nil
  then show ?case by simp
next
  case (Cons item rest)
  show ?case
  proof (cases "F item")
    case False
    with Cons show ?thesis by (simp split: option.splits)
  next
    case True
    then show ?thesis
      by (simp add: Let_def setDefaultState_for_first_given split: option.splits)
  qed
qed

text \<open>
  C8. \<^verbatim>\<open>setDefaultState\<close> writes nothing but the tablist's active item, which becomes
  the first focusable tab that is selected if there is one, otherwise the first
  focusable tab, and stays as it was when no tab of the list is focusable.
\<close>

theorem setDefaultState_active:
  "setDefaultState isFocusable w l
     = w\<lparr>tablists := (tablists w)
          (l := (tablists w l)\<lparr>tl_activeItem :=
             (case find (\<lambda>t. isFocusable t \<and> tab_selected w t) (tl_items (tablists w l)) of
                Some t \<Rightarrow> Some t
              | None \<Rightarrow>
                  (case find isFocusable (tl_items (tablists w l)) of
                     Some t \<Rightarrow> Some t
                   | None \<Rightarrow> tl_activeItem (tablists w l)))\<rparr>)\<rparr>"
  by (simp add: setDefaultState_def setDefaultState_for_none)

theorem setDefaultState_active_witness:
  "tl_activeItem (tablists (setDefaultState (\<lambda>t. True) tabs0 0) 0) = Some 2
   \<and> tl_activeItem (tablists (setDefaultState (\<lambda>t. t = 1) tabs0 0) 0) = Some 1
   \<and> tl_activeItem (tablists (setDefaultState (\<lambda>t. False) tabs0 0) 0) = None"
  using setDefaultState_active [of "\<lambda>t. True" tabs0 0]
        setDefaultState_active [of "\<lambda>t. t = 1" tabs0 0]
        setDefaultState_active [of "\<lambda>t. False" tabs0 0]
  by (simp add: tabs0_def tab_selected_def)

text \<open>
  C9. \<^verbatim>\<open>open\<close> returns false and changes nothing when no tab is resolved: a string
  that is the value of no tab of the list, or no argument while no tab is active.
  When a tab is resolved, the method returns what the expansion behaviour's
  \<^verbatim>\<open>open\<close> returned for it, and \<^verbatim>\<open>selectedTab\<close> becomes that tab when this was true and
  keeps its value when it was false. \<^verbatim>\<open>TabPattern.open\<close> is the tablist's \<^verbatim>\<open>open\<close> on
  the tab itself.
\<close>

theorem tablist_open_result:
  "((\<forall>t \<in> set (tl_items (tablists w l)). tab_value w t \<noteq> v)
      \<longrightarrow> tablist_open E w l (OpenValue v) = (w, False))
   \<and> (tl_activeItem (tablists w l) = None \<longrightarrow> tablist_open E w l OpenDefault = (w, False))
   \<and> (resolveTab w l arg = None \<longrightarrow> tablist_open E w l arg = (w, False))
   \<and> (\<forall>tab. resolveTab w l arg = Some tab \<longrightarrow>
         snd (tablist_open E w l arg) = fst (E w l tab)
         \<and> tl_selectedTab (tablists (fst (tablist_open E w l arg)) l)
             = (if fst (E w l tab) then Some tab else tl_selectedTab (tablists w l))
         \<and> tl_activeItem (tablists (fst (tablist_open E w l arg)) l) = tl_activeItem (tablists w l))
   \<and> tab_open E w t = tablist_open E w (tab_tablist w t) (OpenTab t)
   \<and> resolveTab w l (OpenTab t) = Some t"
proof -
  have "find (\<lambda>t. tab_value w t = v) (tl_items (tablists w l)) = None"
    if "\<forall>t \<in> set (tl_items (tablists w l)). tab_value w t \<noteq> v"
    using that by (simp add: find_None_iff)
  then show ?thesis
    by (auto simp: tablist_open_def resolveTab_def tab_open_def split: prod.splits)
qed

theorem tablist_open_result_witness:
  "tablist_open expansion_single tabs0 0 (OpenValue ''zz'') = (tabs0, False)
   \<and> tablist_open expansion_single tabs0 0 OpenDefault = (tabs0, False)
   \<and> snd (tablist_open expansion_single tabs0 0 (OpenValue ''b'')) = True
   \<and> tl_selectedTab (tablists (fst (tablist_open expansion_single tabs0 0 (OpenValue ''b''))) 0)
       = Some 1
   \<and> snd (tablist_open expansion_refuse tabs0 0 (OpenValue ''b'')) = False
   \<and> tl_selectedTab (tablists (fst (tablist_open expansion_refuse tabs0 0 (OpenValue ''b''))) 0)
       = Some 2"
  using tablist_open_result [of tabs0 0 "''zz''" expansion_single "OpenValue ''b''" 1]
        tablist_open_result [of tabs0 0 "''zz''" expansion_refuse "OpenValue ''b''" 1]
  by (simp add: tabs0_def resolveTab_def expansion_single_def expansion_refuse_def)

section \<open>YouTube API loader\<close>

text \<open>
  On a new service the first attempt behaves as C5 says: a failing script puts the
  error on the returned observable, a loading script makes it emit once and complete,
  and after that \<^verbatim>\<open>load\<close> injects nothing more.
\<close>

lemma loader_first_attempt:
  "loader_run [CallLoad, ScriptFailed]
     = \<lparr>ys_loaded = False,
        ys_loading = \<lparr>rs_values = 0, rs_status = Errored ''Failed to load YouTube API''\<rparr>,
        ys_injected = 1, ys_pending = 0\<rparr>"
  "loader_run [CallLoad, ScriptLoaded]
     = \<lparr>ys_loaded = True, ys_loading = \<lparr>rs_values = 1, rs_status = Completed\<rparr>,
        ys_injected = 1, ys_pending = 0\<rparr>"
  "loader_run [CallLoad, ScriptLoaded, CallLoad, CallLoad] = loader_run [CallLoad, ScriptLoaded]"
  by (simp_all add: loader_run_def new_service_def load_def script_onload_def script_onerror_def
        subject_next_def subject_complete_def subject_error_def)

lemma load_when_loaded: "ys_loaded svc \<Longrightarrow> load svc = svc"
  by (simp add: load_def)

text \<open>
  C5 at the failing input: the first script fails, \<^verbatim>\<open>load\<close> is called again, and the
  script of that second call loads. The second call did inject a script, the service
  ends with \<^verbatim>\<open>loaded\<close> true, and yet the observable that every call returned stays
  failed and has emitted nothing: the subject was stopped by the first error, so the
  \<^verbatim>\<open>next\<close> and \<^verbatim>\<open>complete\<close> of the second script's \<^verbatim>\<open>onload\<close> are ignored. A third call
  returns that failed observable without injecting.
\<close>

theorem loader_retry_after_failure:
  "loader_run [CallLoad, ScriptFailed, CallLoad, ScriptLoaded]
     = \<lparr>ys_loaded = True,
        ys_loading = \<lparr>rs_values = 0, rs_status = Errored ''Failed to load YouTube API''\<rparr>,
        ys_injected = 2, ys_pending = 0\<rparr>
   \<and> loader_run [CallLoad, ScriptFailed, CallLoad, ScriptLoaded, CallLoad]
     = loader_run [CallLoad, ScriptFailed, CallLoad, ScriptLoaded]"
  by (simp add: loader_run_def new_service_def load_def script_onload_def script_onerror_def
        subject_next_def subject_complete_def subject_error_def)

section \<open>Menus: references, timeouts and the closing loop\<close>

subsection \<open>Termination\<close>

lemma root_returns:
  assumes "ascending W rk"
  shows "\<exists>r. root W m = Some r"
proof (induction "rk m" arbitrary: m rule: less_induct)
  case less
  show ?case
  proof (cases "menu_parent W m")
    case None
    then show ?thesis by (subst root.simps) simp
  next
    case (Some mp)
    show ?thesis
    proof (cases mp)
      case (ParentTrigger t)
      with Some show ?thesis by (subst root.simps) simp
    next
      case (ParentItem p)
      show ?thesis
      proof (cases "item_parent W p")
        case None
        with Some ParentItem show ?thesis by (subst root.simps) simp
      next
        case (Some ip)
        note ip = this
        show ?thesis
        proof (cases ip)
          case (ParentBar b)
          with ip \<open>menu_parent W m = Some mp\<close> ParentItem show ?thesis
            by (subst root.simps) simp
        next
          case (ParentMenu g)
          with ip \<open>menu_parent W m = Some mp\<close> ParentItem assms have "rk g < rk m"
            by (auto simp: ascending_def)
          from less [OF this] obtain r where "root W g = Some r" by blast
          with ParentMenu ip \<open>menu_parent W m = Some mp\<close> ParentItem show ?thesis
            by (subst root.simps) simp
        qed
      qed
    qed
  qed
qed

lemma below_empty [simp]: "below W {} = {}"
proof -
  have "i \<in> below W {} \<Longrightarrow> False" for i
    by (induction rule: below.induct) auto
  then show ?thesis by blast
qed

lemma below_Un: "below W (A \<union> B) = below W A \<union> below W B"
proof (intro set_eqI iffI)
  fix i assume "i \<in> below W (A \<union> B)"
  then show "i \<in> below W A \<union> below W B"
    by (induction rule: below.induct) (auto intro: below.intros)
next
  fix i assume "i \<in> below W A \<union> below W B"
  then show "i \<in> below W (A \<union> B)"
  proof
    assume "i \<in> below W A"
    then show ?thesis by (induction rule: below.induct) (auto intro: below.intros)
  next
    assume "i \<in> below W B"
    then show ?thesis by (induction rule: below.induct) (auto intro: below.intros)
  qed
qed

lemma below_single: "below W {x} = insert x (below W (set (submenu_items W x)))"
proof (intro set_eqI iffI)
  fix i assume "i \<in> below W {x}"
  then show "i \<in> insert x (below W (set (submenu_items W x)))"
  proof (induction rule: below.induct)
    case (start i)
    then show ?case by simp
  next
    case (step i sm j)
    show ?case
    proof (cases "i = x")
      case True
      with step have "j \<in> set (submenu_items W x)" by (simp add: submenu_items_def)
      then show ?thesis by (simp add: below.start)
    next
      case False
      with step have "i \<in> below W (set (submenu_items W x))" by simp
      from below.step [OF this step(2) step(3)] show ?thesis by simp
    qed
  qed
next
  fix i assume "i \<in> insert x (below W (set (submenu_items W x)))"
  then consider "i = x" | "i \<in> below W (set (submenu_items W x))" by blast
  then show "i \<in> below W {x}"
  proof cases
    case 1
    then show ?thesis by (simp add: below.start)
  next
    case 2
    then show ?thesis
    proof (induction rule: below.induct)
      case (start i)
      then obtain sm where "item_submenu W x = Some sm" "i \<in> set (menu_items W sm)"
        by (cases "item_submenu W x") (auto simp: submenu_items_def)
      then show ?case
        using below.step [OF below.start [of x "{x}" W]] by simp
    next
      case (step i sm j)
      then show ?case by (auto intro: below.step)
    qed
  qed
qed

lemma below_worklist:
  "wl \<noteq> [] \<Longrightarrow>
   below W (set wl) = insert (last wl) (below W (set (butlast wl @ submenu_items W (last wl))))"
proof -
  assume "wl \<noteq> []"
  then have "set wl = set (butlast wl @ [last wl])" by simp
  then have "set wl = set (butlast wl) \<union> {last wl}" by simp
  then have "below W (set wl) = below W (set (butlast wl)) \<union> below W {last wl}"
    by (simp only: below_Un)
  then show ?thesis
    by (simp add: below_Un below_single)
qed

lemma descending_submenu_items:
  "descending W rk \<Longrightarrow> k \<in> set (submenu_items W x) \<Longrightarrow> rk k < rk x"
  by (cases "item_submenu W x") (auto simp: descending_def submenu_items_def)

lemma cascade_returns:
  assumes "descending W rk"
  shows "\<exists>s'. close_cascade L W c s wl = Some s'"
proof -
  have "wf (mult (measure rk))" by (simp add: wf_mult)
  then show ?thesis
  proof (induction "mset wl" arbitrary: wl s rule: wf_induct_rule)
    case less
    show ?case
    proof (cases "wl = []")
      case True
      then show ?thesis by (subst close_cascade.simps) simp
    next
      case False
      define x where "x = last wl"
      define wl' where "wl' = butlast wl @ submenu_items W x"
      have wl: "wl = butlast wl @ [x]" using False by (simp add: x_def)
      have "mset wl = mset (butlast wl) + {#x#}" by (subst wl) simp
      moreover have "mset wl' = mset (butlast wl) + mset (submenu_items W x)"
        by (simp add: wl'_def)
      moreover have "\<forall>k \<in> set_mset (mset (submenu_items W x)). \<exists>j \<in> set_mset {#x#}. (k, j) \<in> measure rk"
        using descending_submenu_items [OF assms] by auto
      ultimately have "(mset wl', mset wl) \<in> mult (measure rk)"
        using one_step_implies_mult [of "{#x#}" "mset (submenu_items W x)" "measure rk" "mset (butlast wl)"]
        by simp
      from less [OF this] have "\<And>s. \<exists>s'. close_cascade L W c s wl' = Some s'" by blast
      then show ?thesis
        using False
        by (subst close_cascade.simps) (simp add: Let_def wl'_def x_def)
    qed
  qed
qed


subsection \<open>Frames\<close>

lemma set_active_frame [simp]:
  "item_expanded (set_active s owner v) = item_expanded s"
  "trigger_expanded (set_active s owner v) = trigger_expanded s"
  "effects (set_active s owner v) = effects s"
  "timers (set_active s owner v) = timers s"
  "next_timer (set_active s owner v) = next_timer s"
  "menu_openTimeout (set_active s owner v) = menu_openTimeout s"
  "menu_closeTimeout (set_active s owner v) = menu_closeTimeout s"
  "menu_isFocused (set_active s owner v) = menu_isFocused s"
  "bar_isFocused (set_active s owner v) = bar_isFocused s"
  by (cases owner; simp add: set_active_def)+

lemma set_active_menu [simp]:
  "menu_activeItem (set_active s (ParentMenu m) v) = (menu_activeItem s)(m := v)"
  "bar_activeItem (set_active s (ParentMenu m) v) = bar_activeItem s"
  "menu_activeItem (set_active s (ParentBar b) v) = menu_activeItem s"
  "bar_activeItem (set_active s (ParentBar b) v) = (bar_activeItem s)(b := v)"
  by (simp_all add: set_active_def)

lemmas list_op_defs =
  list_goto_def list_first_def list_last_def list_next_def list_prev_def list_unfocus_def
  list_search_def

lemma clearTimeout_frame [simp]:
  "item_expanded (clearTimeout s h) = item_expanded s"
  "trigger_expanded (clearTimeout s h) = trigger_expanded s"
  "effects (clearTimeout s h) = effects s"
  "next_timer (clearTimeout s h) = next_timer s"
  "menu_openTimeout (clearTimeout s h) = menu_openTimeout s"
  "menu_closeTimeout (clearTimeout s h) = menu_closeTimeout s"
  "menu_activeItem (clearTimeout s h) = menu_activeItem s"
  "bar_activeItem (clearTimeout s h) = bar_activeItem s"
  "menu_isFocused (clearTimeout s h) = menu_isFocused s"
  "bar_isFocused (clearTimeout s h) = bar_isFocused s"
  "timers (clearTimeout s h) = filter (\<lambda>t. fst t \<noteq> h) (timers s)"
  by (simp_all add: clearTimeout_def)

lemma clearOpenTimeout_frame [simp]:
  "item_expanded (clearOpenTimeout s m) = item_expanded s"
  "trigger_expanded (clearOpenTimeout s m) = trigger_expanded s"
  "effects (clearOpenTimeout s m) = effects s"
  "next_timer (clearOpenTimeout s m) = next_timer s"
  "menu_closeTimeout (clearOpenTimeout s m) = menu_closeTimeout s"
  "menu_activeItem (clearOpenTimeout s m) = menu_activeItem s"
  "bar_activeItem (clearOpenTimeout s m) = bar_activeItem s"
  "menu_isFocused (clearOpenTimeout s m) = menu_isFocused s"
  "bar_isFocused (clearOpenTimeout s m) = bar_isFocused s"
  "menu_openTimeout (clearOpenTimeout s m) = (menu_openTimeout s)(m := None)"
  by (auto simp: clearOpenTimeout_def split: option.splits)

lemma clearCloseTimeout_frame [simp]:
  "item_expanded (clearCloseTimeout s m) = item_expanded s"
  "trigger_expanded (clearCloseTimeout s m) = trigger_expanded s"
  "effects (clearCloseTimeout s m) = effects s"
  "next_timer (clearCloseTimeout s m) = next_timer s"
  "menu_openTimeout (clearCloseTimeout s m) = menu_openTimeout s"
  "menu_activeItem (clearCloseTimeout s m) = menu_activeItem s"
  "bar_activeItem (clearCloseTimeout s m) = bar_activeItem s"
  "menu_isFocused (clearCloseTimeout s m) = menu_isFocused s"
  "bar_isFocused (clearCloseTimeout s m) = bar_isFocused s"
  "menu_closeTimeout (clearCloseTimeout s m) = (menu_closeTimeout s)(m := None)"
  by (auto simp: clearCloseTimeout_def split: option.splits)

lemma timers_clearOpenTimeout:
  "timers (clearOpenTimeout s m)
     = (case menu_openTimeout s m of None \<Rightarrow> timers s
        | Some h \<Rightarrow> filter (\<lambda>t. fst t \<noteq> h) (timers s))"
  by (simp add: clearOpenTimeout_def split: option.splits)

lemma timers_clearCloseTimeout:
  "timers (clearCloseTimeout s m)
     = (case menu_closeTimeout s m of None \<Rightarrow> timers s
        | Some h \<Rightarrow> filter (\<lambda>t. fst t \<noteq> h) (timers s))"
  by (simp add: clearCloseTimeout_def split: option.splits)

lemma timers_clear_subset:
  "set (timers (clearOpenTimeout s m)) \<subseteq> set (timers s)"
  "set (timers (clearCloseTimeout s m)) \<subseteq> set (timers s)"
  "set (timers (clearTimeouts s m)) \<subseteq> set (timers s)"
  by (auto simp: timers_clearOpenTimeout timers_clearCloseTimeout clearTimeouts_def
      split: option.splits)

subsection \<open>Tracked timeouts\<close>

lemma tracked_cong:
  "timers s' = timers s \<Longrightarrow> next_timer s' = next_timer s
     \<Longrightarrow> menu_openTimeout s' = menu_openTimeout s \<Longrightarrow> menu_closeTimeout s' = menu_closeTimeout s
     \<Longrightarrow> tracked s' = tracked s"
  by (simp add: tracked_def)

lemma tracked_set_active [simp]: "tracked (set_active s owner v) = tracked s"
  by (rule tracked_cong) simp_all

lemma tracked_openD:
  "tracked s \<Longrightarrow> (h, OpenCallback m i) \<in> set (timers s) \<Longrightarrow> menu_openTimeout s m = Some h"
  unfolding tracked_def by blast

lemma tracked_closeD:
  "tracked s \<Longrightarrow> (h, CloseCallback m i) \<in> set (timers s) \<Longrightarrow> menu_closeTimeout s m = Some h"
  unfolding tracked_def by blast

lemma tracked_freshD: "tracked s \<Longrightarrow> (h, cb) \<in> set (timers s) \<Longrightarrow> h < next_timer s"
  unfolding tracked_def by force

lemma tracked_distinctD: "tracked s \<Longrightarrow> distinct (map fst (timers s))"
  unfolding tracked_def by blast

lemma trackedI:
  assumes "distinct (map fst (timers s))"
    and "\<And>h cb. (h, cb) \<in> set (timers s) \<Longrightarrow> h < next_timer s"
    and "\<And>h m i. (h, OpenCallback m i) \<in> set (timers s) \<Longrightarrow> menu_openTimeout s m = Some h"
    and "\<And>h m i. (h, CloseCallback m i) \<in> set (timers s) \<Longrightarrow> menu_closeTimeout s m = Some h"
  shows "tracked s"
  unfolding tracked_def using assms by auto

lemma tracked_clearOpenTimeout:
  assumes "tracked s"
  shows "tracked (clearOpenTimeout s m)"
proof (cases "menu_openTimeout s m")
  case None
  with assms show ?thesis by (simp add: clearOpenTimeout_def)
next
  case (Some h0)
  then have tm: "timers (clearOpenTimeout s m) = filter (\<lambda>t. fst t \<noteq> h0) (timers s)"
    by (simp add: timers_clearOpenTimeout)
  show ?thesis
  proof (rule trackedI)
    show "distinct (map fst (timers (clearOpenTimeout s m)))"
      using tracked_distinctD [OF assms] by (simp add: tm distinct_map_filter)
  next
    fix h cb assume "(h, cb) \<in> set (timers (clearOpenTimeout s m))"
    then show "h < next_timer (clearOpenTimeout s m)"
      using tracked_freshD [OF assms] by (auto simp: tm)
  next
    fix h m' i assume "(h, OpenCallback m' i) \<in> set (timers (clearOpenTimeout s m))"
    then have in_s: "(h, OpenCallback m' i) \<in> set (timers s)" and "h \<noteq> h0" by (auto simp: tm)
    from tracked_openD [OF assms in_s] have "menu_openTimeout s m' = Some h" .
    with Some \<open>h \<noteq> h0\<close> have "m' \<noteq> m" by auto
    with \<open>menu_openTimeout s m' = Some h\<close> show "menu_openTimeout (clearOpenTimeout s m) m' = Some h"
      by simp
  next
    fix h m' i assume "(h, CloseCallback m' i) \<in> set (timers (clearOpenTimeout s m))"
    then have "(h, CloseCallback m' i) \<in> set (timers s)" by (auto simp: tm)
    from tracked_closeD [OF assms this] show "menu_closeTimeout (clearOpenTimeout s m) m' = Some h"
      by simp
  qed
qed

lemma tracked_clearCloseTimeout:
  assumes "tracked s"
  shows "tracked (clearCloseTimeout s m)"
proof (cases "menu_closeTimeout s m")
  case None
  with assms show ?thesis by (simp add: clearCloseTimeout_def)
next
  case (Some h0)
  then have tm: "timers (clearCloseTimeout s m) = filter (\<lambda>t. fst t \<noteq> h0) (timers s)"
    by (simp add: timers_clearCloseTimeout)
  show ?thesis
  proof (rule trackedI)
    show "distinct (map fst (timers (clearCloseTimeout s m)))"
      using tracked_distinctD [OF assms] by (simp add: tm distinct_map_filter)
  next
    fix h cb assume "(h, cb) \<in> set (timers (clearCloseTimeout s m))"
    then show "h < next_timer (clearCloseTimeout s m)"
      using tracked_freshD [OF assms] by (auto simp: tm)
  next
    fix h m' i assume "(h, CloseCallback m' i) \<in> set (timers (clearCloseTimeout s m))"
    then have in_s: "(h, CloseCallback m' i) \<in> set (timers s)" and "h \<noteq> h0" by (auto simp: tm)
    from tracked_closeD [OF assms in_s] have "menu_closeTimeout s m' = Some h" .
    with Some \<open>h \<noteq> h0\<close> have "m' \<noteq> m" by auto
    with \<open>menu_closeTimeout s m' = Some h\<close> show "menu_closeTimeout (clearCloseTimeout s m) m' = Some h"
      by simp
  next
    fix h m' i assume "(h, OpenCallback m' i) \<in> set (timers (clearCloseTimeout s m))"
    then have "(h, OpenCallback m' i) \<in> set (timers s)" by (auto simp: tm)
    from tracked_openD [OF assms this] show "menu_openTimeout (clearCloseTimeout s m) m' = Some h"
      by simp
  qed
qed

lemma tracked_clearTimeouts: "tracked s \<Longrightarrow> tracked (clearTimeouts s m)"
  by (simp add: clearTimeouts_def tracked_clearOpenTimeout tracked_clearCloseTimeout)




subsection \<open>One turn of the closing loop\<close>

lemma cascade_step_frame [simp]:
  "item_expanded (cascade_step L W c s x) = (item_expanded s)(x := False)"
  "trigger_expanded (cascade_step L W c s x) = trigger_expanded s"
  "effects (cascade_step L W c s x) = effects s"
  "next_timer (cascade_step L W c s x) = next_timer s"
  "menu_isFocused (cascade_step L W c s x) = menu_isFocused s"
  "bar_isFocused (cascade_step L W c s x) = bar_isFocused s"
  by (auto simp: cascade_step_def Let_def list_op_defs clearTimeouts_def
      split: option.splits item_parent.splits)

lemma tracked_item_expanded_update [simp]:
  "tracked (s\<lparr>item_expanded := f\<rparr>) = tracked s"
  by (rule tracked_cong) simp_all

lemma cascade_step_cases:
  "cascade_step L W c s x = s\<lparr>item_expanded := (item_expanded s)(x := False)\<rparr>
   \<or> (\<exists>p v. cascade_step L W c s x
              = set_active (s\<lparr>item_expanded := (item_expanded s)(x := False)\<rparr>) p v)
   \<or> (\<exists>p v pm. cascade_step L W c s x
              = clearTimeouts (set_active (s\<lparr>item_expanded := (item_expanded s)(x := False)\<rparr>) p v) pm)"
proof (cases "item_parent W x")
  case None
  then show ?thesis by (simp add: cascade_step_def)
next
  case (Some p)
  show ?thesis
  proof (cases p)
    case (ParentBar b)
    with Some have "cascade_step L W c s x
        = set_active (s\<lparr>item_expanded := (item_expanded s)(x := False)\<rparr>) p
            (lb_unfocus L W (s\<lparr>item_expanded := (item_expanded s)(x := False)\<rparr>) p)"
      by (simp add: cascade_step_def list_unfocus_def Let_def)
    then show ?thesis by blast
  next
    case (ParentMenu pm)
    show ?thesis
    proof (cases c)
      case True
      with Some ParentMenu have "cascade_step L W c s x
          = clearTimeouts (set_active (s\<lparr>item_expanded := (item_expanded s)(x := False)\<rparr>) p
              (lb_unfocus L W (s\<lparr>item_expanded := (item_expanded s)(x := False)\<rparr>) p)) pm"
        by (simp add: cascade_step_def list_unfocus_def Let_def)
      then show ?thesis by blast
    next
      case False
      with Some ParentMenu have "cascade_step L W c s x
          = set_active (s\<lparr>item_expanded := (item_expanded s)(x := False)\<rparr>) p
              (lb_unfocus L W (s\<lparr>item_expanded := (item_expanded s)(x := False)\<rparr>) p)"
        by (simp add: cascade_step_def list_unfocus_def Let_def)
      then show ?thesis by blast
    qed
  qed
qed

lemma cascade_step_timers_subset: "set (timers (cascade_step L W c s x)) \<subseteq> set (timers s)"
proof -
  let ?s1 = "s\<lparr>item_expanded := (item_expanded s)(x := False)\<rparr>"
  consider "cascade_step L W c s x = ?s1"
    | p v where "cascade_step L W c s x = set_active ?s1 p v"
    | p v pm where "cascade_step L W c s x = clearTimeouts (set_active ?s1 p v) pm"
    using cascade_step_cases [of L W c s x] by blast
  then show ?thesis
  proof cases
    case 1
    then show ?thesis by simp
  next
    case 2
    then show ?thesis by simp
  next
    case 3
    then show ?thesis
      using timers_clear_subset(3) [of "set_active ?s1 p v" pm] by simp
  qed
qed

lemma cascade_step_tracked:
  assumes "tracked s"
  shows "tracked (cascade_step L W c s x)"
proof -
  let ?s1 = "s\<lparr>item_expanded := (item_expanded s)(x := False)\<rparr>"
  consider "cascade_step L W c s x = ?s1"
    | p v where "cascade_step L W c s x = set_active ?s1 p v"
    | p v pm where "cascade_step L W c s x = clearTimeouts (set_active ?s1 p v) pm"
    using cascade_step_cases [of L W c s x] by blast
  then show ?thesis
  proof cases
    case 1
    with assms show ?thesis by simp
  next
    case 2
    with assms show ?thesis by simp
  next
    case 3
    with assms show ?thesis by (simp add: tracked_clearTimeouts)
  qed
qed

lemma cascade_step_not_clearing:
  "timers (cascade_step L W False s x) = timers s"
  "menu_openTimeout (cascade_step L W False s x) = menu_openTimeout s"
  "menu_closeTimeout (cascade_step L W False s x) = menu_closeTimeout s"
  by (auto simp: cascade_step_def Let_def list_op_defs split: option.splits item_parent.splits)

lemma cascade_step_keeps_none:
  "menu_openTimeout s pm = None \<Longrightarrow> menu_openTimeout (cascade_step L W c s x) pm = None"
  "menu_closeTimeout s pm = None \<Longrightarrow> menu_closeTimeout (cascade_step L W c s x) pm = None"
  by (auto simp: cascade_step_def Let_def list_op_defs clearTimeouts_def
      split: option.splits item_parent.splits)

lemma cascade_step_clears:
  "item_parent W x = Some (ParentMenu pm) \<Longrightarrow>
     menu_openTimeout (cascade_step L W True s x) pm = None
     \<and> menu_closeTimeout (cascade_step L W True s x) pm = None"
  by (simp add: cascade_step_def Let_def list_op_defs clearTimeouts_def)

subsection \<open>The closing loop\<close>

lemma cascade_rule:
  fixes I :: "mstate \<Rightarrow> item_id list \<Rightarrow> bool"
  assumes run: "close_cascade L W c s wl = Some s'"
    and init: "I s wl"
    and step: "\<And>s wl. wl \<noteq> [] \<Longrightarrow> I s wl
                 \<Longrightarrow> I (cascade_step L W c s (last wl)) (butlast wl @ submenu_items W (last wl))"
  shows "I s' []"
proof -
  have "L = L \<and> W = W \<and> c = c \<longrightarrow> I s wl \<longrightarrow> I s' []"
  proof (rule close_cascade.raw_induct
      [where P = "\<lambda>L' W' c' s wl s'. L' = L \<and> W' = W \<and> c' = c \<longrightarrow> I s wl \<longrightarrow> I s' []",
       OF _ run])
    fix rec :: "list_behavior \<Rightarrow> wiring \<Rightarrow> bool \<Rightarrow> mstate \<Rightarrow> item_id list \<Rightarrow> mstate option"
    fix L' W' c' s wl s'
    assume IH: "\<And>L' W' c' s wl s'. rec L' W' c' s wl = Some s'
                  \<Longrightarrow> L' = L \<and> W' = W \<and> c' = c \<longrightarrow> I s wl \<longrightarrow> I s' []"
      and body: "(if wl = [] then Some s
                  else let menuitem = last wl
                       in rec L' W' c' (cascade_step L' W' c' s menuitem)
                            (butlast wl @ submenu_items W' menuitem)) = Some s'"
    show "L' = L \<and> W' = W \<and> c' = c \<longrightarrow> I s wl \<longrightarrow> I s' []"
    proof (intro impI)
      assume eq: "L' = L \<and> W' = W \<and> c' = c" and inv: "I s wl"
      show "I s' []"
      proof (cases "wl = []")
        case True
        with body inv show ?thesis by simp
      next
        case False
        with body eq have "rec L W c (cascade_step L W c s (last wl))
                              (butlast wl @ submenu_items W (last wl)) = Some s'"
          by (simp add: Let_def)
        from IH [OF this] step [OF False inv] show ?thesis by simp
      qed
    qed
  qed
  with init show ?thesis by simp
qed

lemma cascade_visits:
  assumes run: "close_cascade L W c s wl = Some s'"
  shows "item_expanded s' = (\<lambda>j. item_expanded s j \<and> j \<notin> below W (set wl))"
    and "c \<Longrightarrow> j \<in> below W (set wl) \<Longrightarrow> item_parent W j = Some (ParentMenu pm)
           \<Longrightarrow> menu_openTimeout s' pm = None \<and> menu_closeTimeout s' pm = None"
proof -
  define I where "I = (\<lambda>(s1 :: mstate) wl1. \<exists>V. V \<union> below W (set wl1) = below W (set wl)
      \<and> item_expanded s1 = (\<lambda>j. item_expanded s j \<and> j \<notin> V)
      \<and> (c \<longrightarrow> (\<forall>j \<in> V. \<forall>pm. item_parent W j = Some (ParentMenu pm)
             \<longrightarrow> menu_openTimeout s1 pm = None \<and> menu_closeTimeout s1 pm = None)))"
  have init: "I s wl"
    unfolding I_def by (intro exI [of _ "{}"]) simp
  have step: "I (cascade_step L W c s1 (last wl1)) (butlast wl1 @ submenu_items W (last wl1))"
    if "wl1 \<noteq> []" "I s1 wl1" for s1 wl1
  proof -
    from that(2) obtain V where V: "V \<union> below W (set wl1) = below W (set wl)"
      and ex: "item_expanded s1 = (\<lambda>j. item_expanded s j \<and> j \<notin> V)"
      and cl: "c \<longrightarrow> (\<forall>j \<in> V. \<forall>pm. item_parent W j = Some (ParentMenu pm)
             \<longrightarrow> menu_openTimeout s1 pm = None \<and> menu_closeTimeout s1 pm = None)"
      unfolding I_def by blast
    let ?x = "last wl1"
    let ?wl2 = "butlast wl1 @ submenu_items W ?x"
    let ?s2 = "cascade_step L W c s1 ?x"
    have b: "below W (set wl1) = insert ?x (below W (set ?wl2))"
      using below_worklist [OF that(1)] .
    have "insert ?x V \<union> below W (set ?wl2) = below W (set wl)"
      using V b by blast
    moreover have "item_expanded ?s2 = (\<lambda>j. item_expanded s j \<and> j \<notin> insert ?x V)"
      using ex by (auto simp: fun_eq_iff)
    moreover have "c \<longrightarrow> (\<forall>j \<in> insert ?x V. \<forall>pm. item_parent W j = Some (ParentMenu pm)
             \<longrightarrow> menu_openTimeout ?s2 pm = None \<and> menu_closeTimeout ?s2 pm = None)"
    proof (intro impI ballI allI)
      fix j pm
      assume c: c and j: "j \<in> insert ?x V" and p: "item_parent W j = Some (ParentMenu pm)"
      show "menu_openTimeout ?s2 pm = None \<and> menu_closeTimeout ?s2 pm = None"
      proof (cases "j = ?x")
        case True
        with p c cascade_step_clears [of W ?x pm L s1] show ?thesis by simp
      next
        case False
        with j have "j \<in> V" by simp
        with cl c p have "menu_openTimeout s1 pm = None \<and> menu_closeTimeout s1 pm = None"
          by blast
        then show ?thesis by (simp add: cascade_step_keeps_none)
      qed
    qed
    ultimately show ?thesis
      unfolding I_def by (intro exI [of _ "insert ?x V"]) simp
  qed
  have "I s' []"
    by (rule cascade_rule [OF run, of I, OF init step])
  then obtain V where "V \<union> below W (set []) = below W (set wl)"
      and ex: "item_expanded s' = (\<lambda>j. item_expanded s j \<and> j \<notin> V)"
      and cl: "c \<longrightarrow> (\<forall>j \<in> V. \<forall>pm. item_parent W j = Some (ParentMenu pm)
             \<longrightarrow> menu_openTimeout s' pm = None \<and> menu_closeTimeout s' pm = None)"
    unfolding I_def by blast
  then have V: "V = below W (set wl)" by simp
  from ex V show "item_expanded s' = (\<lambda>j. item_expanded s j \<and> j \<notin> below W (set wl))" by simp
  from cl V show "c \<Longrightarrow> j \<in> below W (set wl) \<Longrightarrow> item_parent W j = Some (ParentMenu pm)
           \<Longrightarrow> menu_openTimeout s' pm = None \<and> menu_closeTimeout s' pm = None"
    by blast
qed

lemma cascade_frame:
  assumes run: "close_cascade L W c s wl = Some s'"
  shows "trigger_expanded s' = trigger_expanded s \<and> effects s' = effects s
         \<and> next_timer s' = next_timer s \<and> menu_isFocused s' = menu_isFocused s
         \<and> bar_isFocused s' = bar_isFocused s \<and> set (timers s') \<subseteq> set (timers s)
         \<and> (tracked s \<longrightarrow> tracked s')
         \<and> (\<not> c \<longrightarrow> timers s' = timers s \<and> menu_openTimeout s' = menu_openTimeout s
                    \<and> menu_closeTimeout s' = menu_closeTimeout s)"
proof -
  define I where "I = (\<lambda>(s1 :: mstate) (wl1 :: item_id list).
      trigger_expanded s1 = trigger_expanded s \<and> effects s1 = effects s
         \<and> next_timer s1 = next_timer s \<and> menu_isFocused s1 = menu_isFocused s
         \<and> bar_isFocused s1 = bar_isFocused s \<and> set (timers s1) \<subseteq> set (timers s)
         \<and> (tracked s \<longrightarrow> tracked s1)
         \<and> (\<not> c \<longrightarrow> timers s1 = timers s \<and> menu_openTimeout s1 = menu_openTimeout s
                    \<and> menu_closeTimeout s1 = menu_closeTimeout s))"
  have init: "I s wl" unfolding I_def by simp
  have step: "I (cascade_step L W c s1 (last wl1)) (butlast wl1 @ submenu_items W (last wl1))"
    if "wl1 \<noteq> []" "I s1 wl1" for s1 wl1
  proof -
    let ?s2 = "cascade_step L W c s1 (last wl1)"
    from that(2) have a: "trigger_expanded s1 = trigger_expanded s" "effects s1 = effects s"
      "next_timer s1 = next_timer s" "menu_isFocused s1 = menu_isFocused s"
      "bar_isFocused s1 = bar_isFocused s" "set (timers s1) \<subseteq> set (timers s)"
      "tracked s \<longrightarrow> tracked s1"
      "\<not> c \<longrightarrow> timers s1 = timers s \<and> menu_openTimeout s1 = menu_openTimeout s
                    \<and> menu_closeTimeout s1 = menu_closeTimeout s"
      unfolding I_def by blast+
    have "set (timers ?s2) \<subseteq> set (timers s)"
      using cascade_step_timers_subset [of L W c s1 "last wl1"] a(6) by blast
    moreover have "tracked s \<longrightarrow> tracked ?s2"
      using cascade_step_tracked [of s1 L W c "last wl1"] a(7) by blast
    moreover have "\<not> c \<longrightarrow> timers ?s2 = timers s \<and> menu_openTimeout ?s2 = menu_openTimeout s
                    \<and> menu_closeTimeout ?s2 = menu_closeTimeout s"
      using a(8) by (cases c) (simp_all add: cascade_step_not_clearing)
    ultimately show ?thesis
      unfolding I_def using a(1-5) by simp
  qed
  have "I s' []"
    by (rule cascade_rule [OF run, of I, OF init step])
  then show ?thesis
    unfolding I_def .
qed


subsection \<open>Undisturbed\<close>

lemma undisturbed_refl [simp]: "undisturbed s s"
  by (simp add: undisturbed_def)

lemma undisturbed_trans: "undisturbed s s1 \<Longrightarrow> undisturbed s1 s2 \<Longrightarrow> undisturbed s s2"
  unfolding undisturbed_def by auto

lemma undisturbed_set_active [simp]: "undisturbed s (set_active s owner v)"
  by (simp add: undisturbed_def)

lemma undisturbed_list_ops [simp]:
  "undisturbed s (list_goto L W s owner i f)"
  "undisturbed s (list_first L W s owner)"
  "undisturbed s (list_last L W s owner)"
  "undisturbed s (list_next L W s owner)"
  "undisturbed s (list_prev L W s owner)"
  "undisturbed s (list_unfocus L W s owner)"
  "undisturbed s (list_search L W s owner k)"
  by (simp_all add: list_op_defs)

lemma list_ops_item_expanded [simp]:
  "item_expanded (list_goto L W s owner i f) = item_expanded s"
  "item_expanded (list_first L W s owner) = item_expanded s"
  "item_expanded (list_last L W s owner) = item_expanded s"
  "item_expanded (list_next L W s owner) = item_expanded s"
  "item_expanded (list_prev L W s owner) = item_expanded s"
  "item_expanded (list_unfocus L W s owner) = item_expanded s"
  "item_expanded (list_search L W s owner k) = item_expanded s"
  by (simp_all add: list_op_defs)

lemma undisturbed_item_expanded_update [simp]:
  "undisturbed s (s\<lparr>item_expanded := f\<rparr>)"
  by (simp add: undisturbed_def)

lemma undisturbed_clear:
  "undisturbed s (clearOpenTimeout s m)"
  "undisturbed s (clearCloseTimeout s m)"
  "undisturbed s (clearTimeouts s m)"
proof -
  show a: "undisturbed s (clearOpenTimeout s m)" for s
    by (simp add: undisturbed_def timers_clear_subset tracked_clearOpenTimeout)
  show b: "undisturbed s (clearCloseTimeout s m)" for s
    by (simp add: undisturbed_def timers_clear_subset tracked_clearCloseTimeout)
  show "undisturbed s (clearTimeouts s m)"
    unfolding clearTimeouts_def by (rule undisturbed_trans [OF a b])
qed

lemma cascade_undisturbed:
  "close_cascade L W c s wl = Some s' \<Longrightarrow> undisturbed s s'"
  using cascade_frame [of L W c s wl s'] by (simp add: undisturbed_def)

subsection \<open>Closing an item, a trigger, a menubar\<close>

lemma item_close_returns:
  "descending W rk \<Longrightarrow> \<exists>s'. item_close L W s i refocus = Some s'"
  unfolding item_close_def Let_def by (rule cascade_returns)

lemma trigger_close_returns:
  "descending W rk \<Longrightarrow> \<exists>s'. trigger_close L W s t refocus = Some s'"
  unfolding trigger_close_def Let_def by (rule cascade_returns)

lemma bar_close_returns:
  "descending W rk \<Longrightarrow> \<exists>s'. bar_close L W s b = Some s'"
  by (cases "bar_activeItem s b") (auto simp: bar_close_def intro: item_close_returns)

lemma close_active_returns:
  "descending W rk \<Longrightarrow> \<exists>s'. close_active L W s m = Some s'"
  by (cases "menu_activeItem s m") (auto simp: close_active_def intro: item_close_returns)

lemma item_close_effect:
  assumes "item_close L W s i refocus = Some s'"
  shows "item_expanded s' = (\<lambda>j. item_expanded s j \<and> j \<notin> below W {i})"
    and "undisturbed s s'"
    and "j \<in> below W (set (submenu_items W i)) \<Longrightarrow> item_parent W j = Some (ParentMenu pm)
           \<Longrightarrow> menu_openTimeout s' pm = None \<and> menu_closeTimeout s' pm = None"
proof -
  define s2 where "s2 = (let s1 = s\<lparr>item_expanded := (item_expanded s)(i := False)\<rparr>
     in if refocus then (case item_parent W i of None \<Rightarrow> s1
                         | Some parent \<Rightarrow> list_goto L W s1 parent i None) else s1)"
  have run: "close_cascade L W True s2 (submenu_items W i) = Some s'"
    using assms by (simp add: item_close_def s2_def Let_def)
  have ex2: "item_expanded s2 = (item_expanded s)(i := False)"
    by (simp add: s2_def Let_def split: option.splits)
  have und2: "undisturbed s s2"
    unfolding s2_def Let_def
    by (auto split: option.splits
        intro: undisturbed_trans [OF undisturbed_item_expanded_update undisturbed_list_ops(1)])
  from cascade_visits(1) [OF run] ex2
  show "item_expanded s' = (\<lambda>j. item_expanded s j \<and> j \<notin> below W {i})"
    by (auto simp: fun_eq_iff below_single)
  from undisturbed_trans [OF und2 cascade_undisturbed [OF run]] show "undisturbed s s'" .
  from cascade_visits(2) [OF run]
  show "j \<in> below W (set (submenu_items W i)) \<Longrightarrow> item_parent W j = Some (ParentMenu pm)
           \<Longrightarrow> menu_openTimeout s' pm = None \<and> menu_closeTimeout s' pm = None"
    by blast
qed

lemma trigger_close_effect:
  assumes "trigger_close L W s t refocus = Some s'"
  shows "item_expanded s'
           = (\<lambda>j. item_expanded s j
                \<and> j \<notin> below W (set (case trigger_menu W t of None \<Rightarrow> [] | Some m \<Rightarrow> menu_items W m)))"
    and "trigger_expanded s' = (trigger_expanded s)(t := False)"
    and "effects s' = effects s @ (if refocus then [FocusTriggerElement t] else [])"
    and "timers s' = timers s" and "next_timer s' = next_timer s"
    and "menu_openTimeout s' = menu_openTimeout s" and "menu_closeTimeout s' = menu_closeTimeout s"
proof -
  define s3 where "s3 = (let s1 = s\<lparr>trigger_expanded := (trigger_expanded s)(t := False)\<rparr>;
          s2 = (case trigger_menu W t of None \<Rightarrow> s1
                | Some m \<Rightarrow> list_unfocus L W s1 (ParentMenu m))
      in if refocus then s2\<lparr>effects := effects s2 @ [FocusTriggerElement t]\<rparr> else s2)"
  have run: "close_cascade L W False s3
               (case trigger_menu W t of None \<Rightarrow> [] | Some m \<Rightarrow> menu_items W m) = Some s'"
    using assms by (simp add: trigger_close_def s3_def Let_def)
  have s3: "item_expanded s3 = item_expanded s"
    "trigger_expanded s3 = (trigger_expanded s)(t := False)"
    "effects s3 = effects s @ (if refocus then [FocusTriggerElement t] else [])"
    "timers s3 = timers s" "next_timer s3 = next_timer s"
    "menu_openTimeout s3 = menu_openTimeout s" "menu_closeTimeout s3 = menu_closeTimeout s"
    by (simp_all add: s3_def Let_def list_op_defs split: option.splits)
  from cascade_visits(1) [OF run] s3(1)
  show "item_expanded s'
           = (\<lambda>j. item_expanded s j
                \<and> j \<notin> below W (set (case trigger_menu W t of None \<Rightarrow> [] | Some m \<Rightarrow> menu_items W m)))"
    by simp
  from cascade_frame [OF run] s3
  show "trigger_expanded s' = (trigger_expanded s)(t := False)"
    "effects s' = effects s @ (if refocus then [FocusTriggerElement t] else [])"
    "timers s' = timers s" "next_timer s' = next_timer s"
    "menu_openTimeout s' = menu_openTimeout s" "menu_closeTimeout s' = menu_closeTimeout s"
    by simp_all
qed

subsection \<open>The example wiring\<close>

lemma wiring0_descending: "descending wiring0 item_rank0"
  unfolding descending_def wiring0_def item_rank0_def
  by (auto split: if_splits)

lemma wiring0_ascending: "ascending wiring0 menu_rank0"
  unfolding ascending_def wiring0_def menu_rank0_def
  by (auto split: if_splits)

subsection \<open>Navigation and opening\<close>

lemma close_active_effect:
  assumes "close_active L W s m = Some s'"
  shows "item_expanded s'
           = (\<lambda>j. item_expanded s j
                \<and> j \<notin> (case menu_activeItem s m of None \<Rightarrow> {} | Some a \<Rightarrow> below W {a}))"
    and "undisturbed s s'"
  using assms item_close_effect(1,2) [of L W s _ False s']
  by (auto simp: close_active_def split: option.splits)

lemma menu_nav_returns:
  assumes "descending W rk"
  shows "\<exists>s'. menu_first L W s m = Some s'" "\<exists>s'. menu_last L W s m = Some s'"
    "\<exists>s'. menu_next L W s m = Some s'" "\<exists>s'. menu_prev L W s m = Some s'"
  using close_active_returns [OF assms, of L s m]
  by (auto simp: menu_first_def menu_last_def menu_next_def menu_prev_def)

lemma menu_first_effect:
  assumes "menu_first L W s m = Some s'"
  shows "\<exists>s1. close_active L W s m = Some s1 \<and> s' = list_first L W s1 (ParentMenu m)"
    and "item_expanded s'
           = (\<lambda>j. item_expanded s j
                \<and> j \<notin> (case menu_activeItem s m of None \<Rightarrow> {} | Some a \<Rightarrow> below W {a}))"
    and "undisturbed s s'"
proof -
  from assms obtain s1 where s1: "close_active L W s m = Some s1"
    and s': "s' = list_first L W s1 (ParentMenu m)"
    by (auto simp: menu_first_def)
  then show "\<exists>s1. close_active L W s m = Some s1 \<and> s' = list_first L W s1 (ParentMenu m)"
    by blast
  from close_active_effect(1) [OF s1] s'
  show "item_expanded s'
           = (\<lambda>j. item_expanded s j
                \<and> j \<notin> (case menu_activeItem s m of None \<Rightarrow> {} | Some a \<Rightarrow> below W {a}))"
    by simp
  from undisturbed_trans [OF close_active_effect(2) [OF s1] undisturbed_list_ops(2)] s'
  show "undisturbed s s'" by simp
qed


lemma item_open_unfold:
  "\<not> item_disabled W i \<Longrightarrow>
   item_open L W s i opts
     = Option.bind
         (if opt_first opts \<and> item_submenu W i \<noteq> None
          then menu_first L W (s\<lparr>item_expanded := (item_expanded s)(i := True)\<rparr>)
                 (the (item_submenu W i))
          else Some (s\<lparr>item_expanded := (item_expanded s)(i := True)\<rparr>))
         (\<lambda>s2. if opt_last opts \<and> item_submenu W i \<noteq> None
                then menu_last L W s2 (the (item_submenu W i))
                else Some s2)"
  by (cases "item_submenu W i") (auto simp: item_open_def Let_def)




lemma below_rank:
  assumes "descending W rk" and "j \<in> below W X"
  shows "\<exists>x \<in> X. rk j \<le> rk x"
  using assms(2)
proof (induction rule: below.induct)
  case (start i)
  then show ?case by blast
next
  case (step i sm j)
  from assms(1) step(2,3) have "rk j < rk i" by (auto simp: descending_def)
  with step.IH show ?case by (meson le_trans less_imp_le)
qed


subsection \<open>Keys\<close>

lemma direction_cases: "d = Ltr \<or> d = Rtl"
  by (cases d) simp_all

lemma menu_handlers_Enter: "handlers_for (menu_keydownManager L W s m) ''Enter'' = [DoTrigger]"
  using direction_cases [of "menu_textDirection W m"]
  by (auto simp: handlers_for_def menu_keydownManager_def key_matches_def expandKey_def
      collapseKey_def dynamicSpaceKey_def typeaheadRegexp_def)

lemma menu_handlers_Escape: "handlers_for (menu_keydownManager L W s m) ''Escape'' = [DoCloseAll]"
  using direction_cases [of "menu_textDirection W m"]
  by (auto simp: handlers_for_def menu_keydownManager_def key_matches_def expandKey_def
      collapseKey_def dynamicSpaceKey_def typeaheadRegexp_def)

lemma perform_all_single: "perform_all f [b] s = f b s"
  by (cases "f b s") simp_all

lemma menu_onKeydown_Enter: "menu_onKeydown L W s m ''Enter'' = menu_trigger L W s m"
  by (simp add: menu_onKeydown_def menu_handlers_Enter split: option.splits)

lemma menu_onKeydown_Escape: "menu_onKeydown L W s m ''Escape'' = menu_closeAll L W s m"
  by (simp add: menu_onKeydown_def menu_handlers_Escape split: option.splits)

subsection \<open>closeAll\<close>

lemma bar_close_effect:
  assumes "bar_close L W s b = Some s'"
  shows "item_expanded s'
           = (\<lambda>j. item_expanded s j
                \<and> j \<notin> (case bar_activeItem s b of None \<Rightarrow> {} | Some a \<Rightarrow> below W {a}))"
    and "undisturbed s s'"
  using assms item_close_effect(1,2) [of L W s _ "bar_isFocused s b" s']
  by (auto simp: bar_close_def split: option.splits)

lemma root_active_close_effect:
  assumes "(case menu_activeItem s rm of None \<Rightarrow> Some s | Some a \<Rightarrow> item_close L W s a True) = Some s'"
  shows "item_expanded s'
           = (\<lambda>j. item_expanded s j
                \<and> j \<notin> (case menu_activeItem s rm of None \<Rightarrow> {} | Some a \<Rightarrow> below W {a}))"
    and "undisturbed s s'"
  using assms item_close_effect(1,2) [of L W s _ True s']
  by (auto split: option.splits)

lemma root_active_close_returns:
  "descending W rk \<Longrightarrow>
     \<exists>s'. (case menu_activeItem s rm of None \<Rightarrow> Some s | Some a \<Rightarrow> item_close L W s a True) = Some s'"
  by (cases "menu_activeItem s rm") (auto intro: item_close_returns)

lemma closeAll_effect:
  assumes d: "descending W ri" and a: "ascending W rm"
  shows "\<exists>r s'. root W m = Some r \<and> menu_closeAll L W s m = Some s'
           \<and> item_expanded s' = (\<lambda>j. item_expanded s j \<and> j \<notin> closeAll_closes W s r)
           \<and> (\<forall>t. r = Some (RootTrigger t) \<longrightarrow> \<not> trigger_expanded s' t)
           \<and> ((\<forall>t. r \<noteq> Some (RootTrigger t)) \<longrightarrow> undisturbed s s')"
proof -
  obtain r where r: "root W m = Some r" using root_returns [OF a] by blast
  show ?thesis
  proof (cases r)
    case None
    with r show ?thesis
      by (simp add: menu_closeAll_def closeAll_closes_def)
  next
    case (Some rt)
    show ?thesis
    proof (cases rt)
      case (RootTrigger t)
      obtain s' where s': "trigger_close L W s t True = Some s'"
        using trigger_close_returns [OF d] by blast
      from trigger_close_effect(1,2) [OF s'] r Some RootTrigger s' show ?thesis
        by (simp add: menu_closeAll_def closeAll_closes_def)
    next
      case (RootBar b)
      obtain s' where s': "bar_close L W s b = Some s'"
        using bar_close_returns [OF d] by blast
      from bar_close_effect [OF s'] r Some RootBar s' show ?thesis
        by (simp add: menu_closeAll_def closeAll_closes_def)
    next
      case (RootMenu rm)
      obtain s' where s': "(case menu_activeItem s rm of None \<Rightarrow> Some s
                            | Some a \<Rightarrow> item_close L W s a True) = Some s'"
        using root_active_close_returns [OF d] by blast
      from root_active_close_effect [OF s'] r Some RootMenu s' show ?thesis
        by (simp add: menu_closeAll_def closeAll_closes_def)
    qed
  qed
qed

subsection \<open>submit and trigger\<close>

lemma submit_effect:
  assumes d: "descending W ri" and a: "ascending W rm"
  shows "\<exists>s'. menu_submit L W s m it = Some s'
           \<and> (\<forall>j. item_expanded s' j \<longrightarrow> item_expanded s j)
           \<and> ((case it of None \<Rightarrow> True
                | Some a \<Rightarrow> item_disabled W a \<or> item_submenu W a \<noteq> None) \<longrightarrow> s' = s)"
proof -
  obtain r where r: "root W m = Some r" using root_returns [OF a] by blast
  show ?thesis
  proof (cases "case it of None \<Rightarrow> True | Some a \<Rightarrow> item_disabled W a \<or> item_submenu W a \<noteq> None")
    case True
    with r show ?thesis
      by (auto simp: menu_submit_def split: option.splits)
  next
    case False
    then obtain i where it: "it = Some i" and en: "\<not> item_disabled W i" "item_submenu W i = None"
      by (auto split: option.splits)
    show ?thesis
    proof (cases r)
      case None
      with r it en show ?thesis by (simp add: menu_submit_def)
    next
      case (Some rt)
      show ?thesis
      proof (cases rt)
        case (RootTrigger t)
        obtain s' where s': "trigger_close L W s t True = Some s'"
          using trigger_close_returns [OF d] by blast
        from trigger_close_effect(1) [OF s'] r Some RootTrigger s' it en show ?thesis
          by (simp add: menu_submit_def)
      next
        case (RootBar b)
        obtain s' where s': "bar_close L W s b = Some s'"
          using bar_close_returns [OF d] by blast
        from bar_close_effect(1) [OF s'] r Some RootBar s' it en show ?thesis
          by (simp add: menu_submit_def)
      next
        case (RootMenu rm)
        obtain s' where s': "(case menu_activeItem s rm of None \<Rightarrow> Some s
                            | Some a \<Rightarrow> item_close L W s a True) = Some s'"
          using root_active_close_returns [OF d] by blast
        from root_active_close_effect(1) [OF s'] r Some RootMenu s' it en show ?thesis
          by (simp add: menu_submit_def)
      qed
    qed
  qed
qed

subsection \<open>Examples evaluated\<close>

lemma root_examples:
  "root wiring0 0 = Some (Some (RootMenu 0))"
  "root wiring0 1 = Some (Some (RootMenu 0))"
  "root wiring0 5 = Some (Some (RootTrigger 0))"
  "root wiring0 6 = Some (Some (RootBar 0))"
  by (simp_all add: root.simps wiring0_def)

lemma hovered_escape:
  "menu_onKeydown plain_list wiring0 hovered_state 0 ''Escape'' \<noteq> None
   \<and> expanded wiring0 (the (menu_onKeydown plain_list wiring0 hovered_state 0 ''Escape'')) 0 = Some True"
  by (simp add: menu_onKeydown_Escape menu_closeAll_def root_examples)
     (simp add: hovered_state_def state0_def item_close_def submenu_items_def wiring0_def
        list_op_defs plain_list_def close_cascade.simps cascade_step_def clearTimeouts_def
        clearOpenTimeout_def clearCloseTimeout_def set_active_def expanded_def Let_def)

lemma trigger_escape:
  "menu_onKeydown plain_list wiring0 trigger_state 5 ''Escape'' \<noteq> None
   \<and> \<not> item_expanded (the (menu_onKeydown plain_list wiring0 trigger_state 5 ''Escape'')) 7"
  by (simp add: menu_onKeydown_Escape menu_closeAll_def root_examples)
     (simp add: trigger_state_def state0_def trigger_close_def submenu_items_def wiring0_def
        list_op_defs plain_list_def close_cascade.simps cascade_step_def clearTimeouts_def
        clearOpenTimeout_def clearCloseTimeout_def set_active_def expanded_def Let_def)


section \<open>Menus: Escape and Enter\<close>

text \<open>
  C2, as amended. With acyclic references, pressing Escape in a menu runs \<^verbatim>\<open>closeAll\<close>,
  which returns, and afterwards an item is marked expanded exactly if it was before
  and is not among the items \<^verbatim>\<open>closeAll\<close> closes for the root it found: under a trigger
  these are all items beneath the trigger's menu, however deep, and the trigger itself
  is closed; under a menubar or a parentless menu they are the root's active item and
  the items beneath it, and the other items of the root keep their state.
\<close>

theorem escape_closes_cascade:
  assumes "descending W ri" and "ascending W rm"
  shows "\<exists>r s'. root W m = Some r \<and> menu_onKeydown L W s m ''Escape'' = Some s'
           \<and> item_expanded s' = (\<lambda>j. item_expanded s j \<and> j \<notin> closeAll_closes W s r)
           \<and> (\<forall>t. r = Some (RootTrigger t) \<longrightarrow>
                 \<not> trigger_expanded s' t
                 \<and> (\<forall>j \<in> below W (set (case trigger_menu W t of None \<Rightarrow> []
                                          | Some tm \<Rightarrow> menu_items W tm)).
                       \<not> item_expanded s' j))"
proof -
  from closeAll_effect [OF assms, of m L s] obtain r s' where
    r: "root W m = Some r" and s': "menu_closeAll L W s m = Some s'"
    and ex: "item_expanded s' = (\<lambda>j. item_expanded s j \<and> j \<notin> closeAll_closes W s r)"
    and tr: "\<forall>t. r = Some (RootTrigger t) \<longrightarrow> \<not> trigger_expanded s' t"
    by blast
  have "\<not> item_expanded s' j"
    if "r = Some (RootTrigger t)"
      and "j \<in> below W (set (case trigger_menu W t of None \<Rightarrow> [] | Some tm \<Rightarrow> menu_items W tm))"
    for t j
    using that ex by (simp add: closeAll_closes_def)
  with r s' ex tr show ?thesis
    by (simp add: menu_onKeydown_Escape)
qed

theorem escape_closes_cascade_witness:
  "descending wiring0 item_rank0 \<and> ascending wiring0 menu_rank0
   \<and> root wiring0 5 = Some (Some (RootTrigger 0))
   \<and> item_expanded trigger_state 7 \<and> item_expanded trigger_state 8
   \<and> (\<exists>s'. menu_onKeydown plain_list wiring0 trigger_state 5 ''Escape'' = Some s'
          \<and> \<not> item_expanded s' 7 \<and> \<not> item_expanded s' 8 \<and> \<not> trigger_expanded s' 0)"
proof -
  from escape_closes_cascade [OF wiring0_descending wiring0_ascending, of 5 plain_list trigger_state]
  obtain r s' where r: "root wiring0 5 = Some r"
    and s': "menu_onKeydown plain_list wiring0 trigger_state 5 ''Escape'' = Some s'"
    and tr: "\<forall>t. r = Some (RootTrigger t) \<longrightarrow>
                 \<not> trigger_expanded s' t
                 \<and> (\<forall>j \<in> below wiring0 (set (case trigger_menu wiring0 t of None \<Rightarrow> []
                                          | Some tm \<Rightarrow> menu_items wiring0 tm)).
                       \<not> item_expanded s' j)"
    by blast
  from r have "r = Some (RootTrigger 0)" by (simp add: root_examples)
  moreover have "trigger_menu wiring0 0 = Some 4" by (simp add: wiring0_def)
  ultimately have t0: "\<not> trigger_expanded s' 0"
    and all: "\<forall>j \<in> below wiring0 (set (menu_items wiring0 4)). \<not> item_expanded s' j"
    using tr by auto
  have 7: "7 \<in> below wiring0 (set (menu_items wiring0 4))"
    by (rule below.start) (simp add: wiring0_def)
  have "8 \<in> below wiring0 (set (menu_items wiring0 4))"
    by (rule below.step [OF 7, of 5]) (simp_all add: wiring0_def)
  with 7 all have "\<not> item_expanded s' 7" "\<not> item_expanded s' 8" by blast+
  with s' t0 show ?thesis
    by (simp add: wiring0_descending wiring0_ascending root_examples trigger_state_def)
qed

text \<open>
  C2 as stated fails for a root that is a menu: in the state reached by hovering item
  0, letting it open, and moving the pointer to item 1, Escape closes the active item 1
  and leaves item 0, an item of the root, expanded.
\<close>

theorem escape_leaves_other_item_counterexample:
  "root wiring0 0 = Some (Some (RootMenu 0))
   \<and> 0 \<in> set (menu_items wiring0 0)
   \<and> menu_onKeydown plain_list wiring0 hovered_state 0 ''Escape'' \<noteq> None
   \<and> expanded wiring0 (the (menu_onKeydown plain_list wiring0 hovered_state 0 ''Escape'')) 0
       = Some True"
proof -
  have "0 \<in> set (menu_items wiring0 0)" by (simp add: wiring0_def)
  with hovered_escape root_examples(1) show ?thesis by simp
qed

text \<open>
  C1, as amended. With acyclic references, pressing Enter in a menu runs \<^verbatim>\<open>trigger\<close>,
  which returns. If the active item has a submenu and is not disabled, the item is
  marked expanded, the submenu's own active item is closed and the list behaviour's
  \<^verbatim>\<open>first\<close> runs on the submenu; nothing is submitted (no effect, no trigger closed), and
  the item is still expanded at the end when the submenu's active item, if any, is one
  of the submenu's items. If the active item has a submenu and is disabled, nothing
  changes. If it has no submenu, \<^verbatim>\<open>submit\<close> runs on it, which marks no item as expanded
  and changes nothing when the item is disabled. With no active item nothing changes.
\<close>

theorem enter_opens_or_submits:
  assumes d: "descending W ri" and a: "ascending W rm"
  shows "\<exists>s'. menu_onKeydown L W s m ''Enter'' = Some s' \<and> menu_trigger L W s m = Some s'
     \<and> (case menu_activeItem s m of
          None \<Rightarrow> s' = s
        | Some act \<Rightarrow>
            (case item_submenu W act of
               Some sm \<Rightarrow>
                 (if item_disabled W act then s' = s
                  else (\<exists>s1. close_active L W (s\<lparr>item_expanded := (item_expanded s)(act := True)\<rparr>) sm
                               = Some s1
                             \<and> s' = list_first L W s1 (ParentMenu sm))
                       \<and> effects s' = effects s \<and> trigger_expanded s' = trigger_expanded s
                       \<and> ((\<forall>x. menu_activeItem s sm = Some x \<longrightarrow> x \<in> set (menu_items W sm))
                            \<longrightarrow> item_expanded s' act))
             | None \<Rightarrow>
                 menu_submit L W s m (Some act) = Some s'
                 \<and> (\<forall>j. item_expanded s' j \<longrightarrow> item_expanded s j)
                 \<and> (item_disabled W act \<longrightarrow> s' = s)))"
proof (cases "menu_activeItem s m")
  case None
  from submit_effect [OF d a, of L s m None] obtain s' where
    "menu_submit L W s m None = Some s'" "s' = s" by auto
  with None show ?thesis
    by (simp add: menu_onKeydown_Enter menu_trigger_def)
next
  case (Some act)
  show ?thesis
  proof (cases "item_submenu W act")
    case None
    from submit_effect [OF d a, of L s m "Some act"] obtain s' where
      "menu_submit L W s m (Some act) = Some s'" "\<forall>j. item_expanded s' j \<longrightarrow> item_expanded s j"
      "item_disabled W act \<longrightarrow> s' = s" by auto
    with None Some show ?thesis
      by (simp add: menu_onKeydown_Enter menu_trigger_def hasPopup_def)
  next
    case (Some sm)
    note sub = this
    show ?thesis
    proof (cases "item_disabled W act")
      case True
      with sub \<open>menu_activeItem s m = Some act\<close> show ?thesis
        by (simp add: menu_onKeydown_Enter menu_trigger_def hasPopup_def item_open_def)
    next
      case False
      define s0 where "s0 = s\<lparr>item_expanded := (item_expanded s)(act := True)\<rparr>"
      have op: "item_open L W s act first_opt = menu_first L W s0 sm"
        unfolding item_open_unfold [OF False] s0_def using sub
        by (cases "menu_first L W (s\<lparr>item_expanded := (item_expanded s)(act := True)\<rparr>) sm")
           (simp_all add: first_opt_def)
      obtain s' where s': "menu_first L W s0 sm = Some s'"
        using menu_nav_returns(1) [OF d] by blast
      from menu_first_effect [OF s'] have
        s1: "\<exists>s1. close_active L W s0 sm = Some s1 \<and> s' = list_first L W s1 (ParentMenu sm)"
        and ex: "item_expanded s'
           = (\<lambda>j. item_expanded s0 j
                \<and> j \<notin> (case menu_activeItem s0 sm of None \<Rightarrow> {} | Some x \<Rightarrow> below W {x}))"
        and und: "undisturbed s0 s'"
        by blast+
      have fr: "effects s' = effects s" "trigger_expanded s' = trigger_expanded s"
        using und by (simp_all add: undisturbed_def s0_def)
      have stay: "item_expanded s' act"
        if ok: "\<forall>x. menu_activeItem s sm = Some x \<longrightarrow> x \<in> set (menu_items W sm)"
      proof (cases "menu_activeItem s sm")
        case None
        with ex show ?thesis by (simp add: s0_def)
      next
        case (Some x)
        with ok have "x \<in> set (menu_items W sm)" by blast
        with d sub have lt: "ri x < ri act" by (auto simp: descending_def)
        have "act \<notin> below W {x}"
        proof
          assume "act \<in> below W {x}"
          from below_rank [OF d this] lt show False by simp
        qed
        with ex Some show ?thesis by (simp add: s0_def)
      qed
      from s' op s1 fr stay sub False \<open>menu_activeItem s m = Some act\<close> show ?thesis
        by (simp add: menu_onKeydown_Enter menu_trigger_def hasPopup_def s0_def)
    qed
  qed
qed

theorem enter_opens_or_submits_witness:
  "descending wiring0 item_rank0 \<and> ascending wiring0 menu_rank0
   \<and> menu_activeItem hovered_state 0 = Some 1 \<and> item_submenu wiring0 1 = Some 1
   \<and> \<not> item_disabled wiring0 1 \<and> \<not> item_expanded hovered_state 1
   \<and> (\<exists>s'. menu_onKeydown plain_list wiring0 hovered_state 0 ''Enter'' = Some s'
          \<and> item_expanded s' 1 \<and> effects s' = [])"
proof -
  have facts: "menu_activeItem hovered_state 0 = Some 1" "item_submenu wiring0 1 = Some 1"
    "\<not> item_disabled wiring0 1" "\<not> item_expanded hovered_state 1"
    "menu_activeItem hovered_state 1 = None" "effects hovered_state = []"
    by (simp_all add: hovered_state_def state0_def wiring0_def item_disabled_def)
  from enter_opens_or_submits [OF wiring0_descending wiring0_ascending, of plain_list hovered_state 0]
    facts
  have "\<exists>s'. menu_onKeydown plain_list wiring0 hovered_state 0 ''Enter'' = Some s'
          \<and> item_expanded s' 1 \<and> effects s' = []"
    by auto
  with facts show ?thesis
    by (simp add: wiring0_descending wiring0_ascending)
qed

text \<open>
  C1 as stated fails on a disabled item: with the disabled item 2, which has a
  submenu, active, Enter neither opens the submenu nor submits; the state is unchanged.
\<close>

theorem enter_on_disabled_item_counterexample:
  "menu_activeItem disabled_active_state 0 = Some 2
   \<and> hasPopup wiring0 2
   \<and> menu_onKeydown plain_list wiring0 disabled_active_state 0 ''Enter''
       = Some disabled_active_state
   \<and> expanded wiring0 disabled_active_state 2 = Some False
   \<and> effects disabled_active_state = []"
  by (simp add: menu_onKeydown_Enter menu_trigger_def)
     (simp add: disabled_active_state_def state0_def wiring0_def hasPopup_def item_open_def
        item_disabled_def expanded_def)

section \<open>Direction keys\<close>

lemma menu_direction_keys:
  "menu_textDirection W m = Ltr \<Longrightarrow>
     handlers_for (menu_keydownManager L W s m) ''ArrowRight'' = [DoExpand]
     \<and> handlers_for (menu_keydownManager L W s m) ''ArrowLeft'' = [DoCollapse]"
  "menu_textDirection W m = Rtl \<Longrightarrow>
     handlers_for (menu_keydownManager L W s m) ''ArrowLeft'' = [DoExpand]
     \<and> handlers_for (menu_keydownManager L W s m) ''ArrowRight'' = [DoCollapse]"
  by (auto simp: handlers_for_def menu_keydownManager_def key_matches_def expandKey_def
      collapseKey_def dynamicSpaceKey_def typeaheadRegexp_def)

lemma bar_direction_keys:
  "bar_textDirection W b = Ltr \<Longrightarrow>
     handlers_for (bar_keydownManager L W s b) ''ArrowRight'' = [BarNext]
     \<and> handlers_for (bar_keydownManager L W s b) ''ArrowLeft'' = [BarPrev]"
  "bar_textDirection W b = Rtl \<Longrightarrow>
     handlers_for (bar_keydownManager L W s b) ''ArrowLeft'' = [BarNext]
     \<and> handlers_for (bar_keydownManager L W s b) ''ArrowRight'' = [BarPrev]"
  by (auto simp: handlers_for_def bar_keydownManager_def key_matches_def bar_nextKey_def
      bar_previousKey_def dynamicSpaceKey_def typeaheadRegexp_def)

lemma tablist_direction_keys:
  "\<not> tl_orientationVertical tabs \<Longrightarrow> tl_textDirection tabs = Ltr \<Longrightarrow>
     handlers_for (tablist_keydown tabs) ''ArrowLeft'' = [TabPrev]
     \<and> handlers_for (tablist_keydown tabs) ''ArrowRight'' = [TabNext]"
  "\<not> tl_orientationVertical tabs \<Longrightarrow> tl_textDirection tabs = Rtl \<Longrightarrow>
     handlers_for (tablist_keydown tabs) ''ArrowRight'' = [TabPrev]
     \<and> handlers_for (tablist_keydown tabs) ''ArrowLeft'' = [TabNext]"
  by (auto simp: handlers_for_def tablist_keydown_def key_matches_def tablist_prevKey_def
      tablist_nextKey_def)

text \<open>
  C3. The arrow keys swap under RTL. In a menu, ArrowRight is the expand key and
  ArrowLeft the collapse key when the text direction is \<^verbatim>\<open>ltr\<close>, and pressing them runs
  \<^verbatim>\<open>expand\<close> and \<^verbatim>\<open>collapse\<close>; with \<^verbatim>\<open>rtl\<close> the two keys are exchanged. The same holds for
  \<^verbatim>\<open>next\<close> and \<^verbatim>\<open>prev\<close> of the menubar, and for the previous and next tab of a tablist
  that is not vertical.
\<close>

theorem arrow_keys_swap_under_rtl:
  "(menu_textDirection W m = Ltr \<longrightarrow>
      expandKey W m = ''ArrowRight'' \<and> collapseKey W m = ''ArrowLeft''
      \<and> handlers_for (menu_keydownManager L W s m) ''ArrowRight'' = [DoExpand]
      \<and> handlers_for (menu_keydownManager L W s m) ''ArrowLeft'' = [DoCollapse])
   \<and> (menu_textDirection W m = Rtl \<longrightarrow>
      expandKey W m = ''ArrowLeft'' \<and> collapseKey W m = ''ArrowRight''
      \<and> handlers_for (menu_keydownManager L W s m) ''ArrowLeft'' = [DoExpand]
      \<and> handlers_for (menu_keydownManager L W s m) ''ArrowRight'' = [DoCollapse])
   \<and> (bar_textDirection W b = Ltr \<longrightarrow>
      bar_nextKey W b = ''ArrowRight'' \<and> bar_previousKey W b = ''ArrowLeft''
      \<and> handlers_for (bar_keydownManager L W s b) ''ArrowRight'' = [BarNext]
      \<and> handlers_for (bar_keydownManager L W s b) ''ArrowLeft'' = [BarPrev])
   \<and> (bar_textDirection W b = Rtl \<longrightarrow>
      bar_nextKey W b = ''ArrowLeft'' \<and> bar_previousKey W b = ''ArrowRight''
      \<and> handlers_for (bar_keydownManager L W s b) ''ArrowLeft'' = [BarNext]
      \<and> handlers_for (bar_keydownManager L W s b) ''ArrowRight'' = [BarPrev])
   \<and> (\<not> tl_orientationVertical tabs \<and> tl_textDirection tabs = Ltr \<longrightarrow>
      tablist_prevKey tabs = ''ArrowLeft'' \<and> tablist_nextKey tabs = ''ArrowRight''
      \<and> handlers_for (tablist_keydown tabs) ''ArrowLeft'' = [TabPrev]
      \<and> handlers_for (tablist_keydown tabs) ''ArrowRight'' = [TabNext])
   \<and> (\<not> tl_orientationVertical tabs \<and> tl_textDirection tabs = Rtl \<longrightarrow>
      tablist_prevKey tabs = ''ArrowRight'' \<and> tablist_nextKey tabs = ''ArrowLeft''
      \<and> handlers_for (tablist_keydown tabs) ''ArrowRight'' = [TabPrev]
      \<and> handlers_for (tablist_keydown tabs) ''ArrowLeft'' = [TabNext])"
  using menu_direction_keys [of W m L s] bar_direction_keys [of W b L s]
    tablist_direction_keys [of tabs]
  by (simp add: expandKey_def collapseKey_def bar_nextKey_def bar_previousKey_def
      tablist_prevKey_def tablist_nextKey_def)

theorem arrow_keys_swap_under_rtl_witness:
  "handlers_for (menu_keydownManager plain_list wiring0 state0 0) ''ArrowRight'' = [DoExpand]
   \<and> handlers_for (menu_keydownManager plain_list wiring_rtl state0 0) ''ArrowRight'' = [DoCollapse]
   \<and> handlers_for (bar_keydownManager plain_list wiring0 state0 0) ''ArrowLeft'' = [BarPrev]
   \<and> handlers_for (bar_keydownManager plain_list wiring_rtl state0 0) ''ArrowLeft'' = [BarNext]
   \<and> handlers_for (tablist_keydown tablist_ltr) ''ArrowLeft'' = [TabPrev]
   \<and> handlers_for (tablist_keydown tablist_rtl) ''ArrowLeft'' = [TabNext]"
  using arrow_keys_swap_under_rtl [of wiring0 0 plain_list state0 0 tablist_ltr]
    arrow_keys_swap_under_rtl [of wiring_rtl 0 plain_list state0 0 tablist_rtl]
  by (simp add: wiring0_def wiring_rtl_def tablist_ltr_def tablist_rtl_def)

section \<open>Tab indices\<close>

lemma roving_getItemTabindex:
  "roving (getItemTabindex :: 'l \<Rightarrow> nat option \<Rightarrow> nat \<Rightarrow> int)"
  by (simp add: roving_def getItemTabindex_def)

lemma rovingD:
  assumes "roving G"
  shows "G l a i = 0 \<or> G l a i = - 1" and "G l a i = 0 \<Longrightarrow> a = Some i"
  using assms unfolding roving_def by blast+

text \<open>
  C7, as amended. Let the lists' \<^verbatim>\<open>getItemTabindex\<close> be roving. Then in every state every
  menu item, tab and tree item reports the tab index 0 or -1; of the items of one list
  (the items that share a menu or menubar, a tablist, a tree) at most one reports 0,
  and it is that list's active item; a menu item whose submenu has an active item
  reports -1; and the active item of a list reports 0 if the list gives its active
  item 0 and, for a menu item, its submenu has no active item. Items of different
  lists are not compared: two menus of one menu tree can each hold an item that
  reports 0.
\<close>

theorem roving_tabindex:
  assumes "roving G" and "roving T" and "roving R"
  shows
  "(item_tabIndex G W s i = 0 \<or> item_tabIndex G W s i = - 1)
   \<and> (item_tabIndex G W s i = 0 \<and> item_tabIndex G W s j = 0 \<and> item_parent W i = item_parent W j
        \<longrightarrow> i = j)
   \<and> (item_tabIndex G W s i = 0 \<longrightarrow> (\<exists>p. item_parent W i = Some p \<and> active_of s p = Some i))
   \<and> ((\<exists>sm. item_submenu W i = Some sm \<and> menu_activeItem s sm \<noteq> None)
        \<longrightarrow> item_tabIndex G W s i = - 1)
   \<and> (item_parent W i = Some p \<and> active_of s p = Some i \<and> G p (Some i) i = 0
        \<and> \<not> (\<exists>sm. item_submenu W i = Some sm \<and> menu_activeItem s sm \<noteq> None)
        \<longrightarrow> item_tabIndex G W s i = 0)
   \<and> (tab_tabIndex T w t = 0 \<or> tab_tabIndex T w t = - 1)
   \<and> (tab_tabIndex T w t = 0 \<and> tab_tabIndex T w u = 0 \<and> tab_tablist w t = tab_tablist w u
        \<longrightarrow> t = u)
   \<and> (tab_tabIndex T w t = 0 \<longrightarrow> tl_activeItem (tablists w (tab_tablist w t)) = Some t)
   \<and> (tl_activeItem (tablists w (tab_tablist w t)) = Some t \<and> T (tab_tablist w t) (Some t) t = 0
        \<longrightarrow> tab_tabIndex T w t = 0)
   \<and> (treeitem_tabIndex R tw x = 0 \<or> treeitem_tabIndex R tw x = - 1)
   \<and> (treeitem_tabIndex R tw x = 0 \<and> treeitem_tabIndex R tw y = 0
        \<and> treeitem_tree tw x = treeitem_tree tw y \<longrightarrow> x = y)
   \<and> (treeitem_tabIndex R tw x = 0 \<longrightarrow> tree_activeItem tw (treeitem_tree tw x) = Some x)
   \<and> (tree_activeItem tw (treeitem_tree tw x) = Some x \<and> R (treeitem_tree tw x) (Some x) x = 0
        \<longrightarrow> treeitem_tabIndex R tw x = 0)"
proof -
  note g = rovingD [OF assms(1)] and ta = rovingD [OF assms(2)] and r = rovingD [OF assms(3)]
  have m1: "item_tabIndex G W s i = 0 \<or> item_tabIndex G W s i = - 1" for i
    using g(1) by (simp add: item_tabIndex_def split: option.splits)
  have m3: "\<exists>p. item_parent W i = Some p \<and> active_of s p = Some i" if "item_tabIndex G W s i = 0" for i
    using that g(2) by (auto simp: item_tabIndex_def split: option.splits if_splits)
  have m2: "i = j"
    if "item_tabIndex G W s i = 0" "item_tabIndex G W s j = 0" "item_parent W i = item_parent W j"
  proof -
    from m3 [OF that(1)] obtain p where "item_parent W i = Some p" "active_of s p = Some i" by blast
    moreover from m3 [OF that(2)] obtain q where "item_parent W j = Some q" "active_of s q = Some j"
      by blast
    ultimately show ?thesis using that(3) by simp
  qed
  have m4: "item_tabIndex G W s i = - 1"
    if "\<exists>sm. item_submenu W i = Some sm \<and> menu_activeItem s sm \<noteq> None"
    using that by (auto simp: item_tabIndex_def)
  have m5: "item_tabIndex G W s i = 0"
    if "item_parent W i = Some p \<and> active_of s p = Some i \<and> G p (Some i) i = 0
        \<and> \<not> (\<exists>sm. item_submenu W i = Some sm \<and> menu_activeItem s sm \<noteq> None)"
    using that by (auto simp: item_tabIndex_def split: option.splits)
  have t1: "tab_tabIndex T w t = 0 \<or> tab_tabIndex T w t = - 1"
    using ta(1) by (simp add: tab_tabIndex_def)
  have t3: "tl_activeItem (tablists w (tab_tablist w t)) = Some t" if "tab_tabIndex T w t = 0" for t
    using that ta(2) by (simp add: tab_tabIndex_def)
  have t2: "t = u"
    if "tab_tabIndex T w t = 0" "tab_tabIndex T w u = 0" "tab_tablist w t = tab_tablist w u"
    using t3 [OF that(1)] t3 [OF that(2)] that(3) by (metis option.inject)
  have t4: "tab_tabIndex T w t = 0"
    if "tl_activeItem (tablists w (tab_tablist w t)) = Some t \<and> T (tab_tablist w t) (Some t) t = 0"
    using that by (simp add: tab_tabIndex_def)
  have r1: "treeitem_tabIndex R tw x = 0 \<or> treeitem_tabIndex R tw x = - 1"
    using r(1) by (simp add: treeitem_tabIndex_def)
  have r3: "tree_activeItem tw (treeitem_tree tw x) = Some x" if "treeitem_tabIndex R tw x = 0" for x
    using that r(2) by (simp add: treeitem_tabIndex_def)
  have r2: "x = y"
    if "treeitem_tabIndex R tw x = 0" "treeitem_tabIndex R tw y = 0"
      "treeitem_tree tw x = treeitem_tree tw y"
    using r3 [OF that(1)] r3 [OF that(2)] that(3) by (metis option.inject)
  have r4: "treeitem_tabIndex R tw x = 0"
    if "tree_activeItem tw (treeitem_tree tw x) = Some x \<and> R (treeitem_tree tw x) (Some x) x = 0"
    using that by (simp add: treeitem_tabIndex_def)
  have c2: "item_tabIndex G W s i = 0 \<and> item_tabIndex G W s j = 0
        \<and> item_parent W i = item_parent W j \<longrightarrow> i = j"
    using m2 by blast
  have c3: "item_tabIndex G W s i = 0
        \<longrightarrow> (\<exists>p. item_parent W i = Some p \<and> active_of s p = Some i)"
    using m3 by blast
  have c4: "(\<exists>sm. item_submenu W i = Some sm \<and> menu_activeItem s sm \<noteq> None)
        \<longrightarrow> item_tabIndex G W s i = - 1"
    using m4 by blast
  have c5: "item_parent W i = Some p \<and> active_of s p = Some i \<and> G p (Some i) i = 0
        \<and> \<not> (\<exists>sm. item_submenu W i = Some sm \<and> menu_activeItem s sm \<noteq> None)
        \<longrightarrow> item_tabIndex G W s i = 0"
    using m5 by blast
  have d2: "tab_tabIndex T w t = 0 \<and> tab_tabIndex T w u = 0 \<and> tab_tablist w t = tab_tablist w u
        \<longrightarrow> t = u"
    using t2 by blast
  have d3: "tab_tabIndex T w t = 0 \<longrightarrow> tl_activeItem (tablists w (tab_tablist w t)) = Some t"
    using t3 by blast
  have d4: "tl_activeItem (tablists w (tab_tablist w t)) = Some t \<and> T (tab_tablist w t) (Some t) t = 0
        \<longrightarrow> tab_tabIndex T w t = 0"
    using t4 by blast
  have e2: "treeitem_tabIndex R tw x = 0 \<and> treeitem_tabIndex R tw y = 0
        \<and> treeitem_tree tw x = treeitem_tree tw y \<longrightarrow> x = y"
    using r2 by blast
  have e3: "treeitem_tabIndex R tw x = 0 \<longrightarrow> tree_activeItem tw (treeitem_tree tw x) = Some x"
    using r3 by blast
  have e4: "tree_activeItem tw (treeitem_tree tw x) = Some x \<and> R (treeitem_tree tw x) (Some x) x = 0
        \<longrightarrow> treeitem_tabIndex R tw x = 0"
    using r4 by blast
  from m1 [of i] c2 c3 c4 c5 t1 d2 d3 d4 r1 e2 e3 e4
  show ?thesis by (intro conjI)
qed

theorem roving_tabindex_witness:
  "roving (getItemTabindex :: item_parent \<Rightarrow> item_id option \<Rightarrow> item_id \<Rightarrow> int)
   \<and> roving (getItemTabindex :: nat \<Rightarrow> nat option \<Rightarrow> nat \<Rightarrow> int)
   \<and> item_tabIndex getItemTabindex wiring0 trigger_state 8 = 0
   \<and> item_tabIndex getItemTabindex wiring0 trigger_state 7 = - 1
   \<and> tab_tabIndex getItemTabindex tabs0 1 = - 1
   \<and> treeitem_tabIndex getItemTabindex tree0 4 = 0
   \<and> treeitem_tabIndex getItemTabindex tree0 5 = - 1"
proof -
  note th8 = roving_tabindex [OF roving_getItemTabindex roving_getItemTabindex
      roving_getItemTabindex, where W = wiring0 and s = trigger_state and i = 8 and j = 7
      and p = "ParentMenu 5" and w = tabs0 and t = 1 and u = 2 and tw = tree0 and x = 4 and y = 5]
  note th7 = roving_tabindex [OF roving_getItemTabindex roving_getItemTabindex
      roving_getItemTabindex, where W = wiring0 and s = trigger_state and i = 7 and j = 8
      and p = "ParentMenu 4" and w = tabs0 and t = 1 and u = 2 and tw = tree0 and x = 5 and y = 4]
  have facts: "item_parent wiring0 8 = Some (ParentMenu 5)"
    "active_of trigger_state (ParentMenu 5) = Some 8"
    "getItemTabindex (ParentMenu 5) (Some 8) 8 = 0"
    "item_submenu wiring0 8 = None"
    "item_submenu wiring0 7 = Some 5" "menu_activeItem trigger_state 5 \<noteq> None"
    "tl_activeItem (tablists tabs0 (tab_tablist tabs0 1)) \<noteq> Some 1"
    "tree_activeItem tree0 (treeitem_tree tree0 4) = Some 4"
    "getItemTabindex (treeitem_tree tree0 4) (Some 4) 4 = 0"
    "tree_activeItem tree0 (treeitem_tree tree0 5) \<noteq> Some 5"
    by (simp_all add: wiring0_def trigger_state_def state0_def tabs0_def tree0_def active_of_def
        getItemTabindex_def)
  from th8 facts have "item_tabIndex getItemTabindex wiring0 trigger_state 8 = 0" by simp
  moreover from th7 facts have "item_tabIndex getItemTabindex wiring0 trigger_state 7 = - 1"
    by blast
  moreover from th8 facts have "tab_tabIndex getItemTabindex tabs0 1 = - 1" by blast
  moreover from th8 facts have "treeitem_tabIndex getItemTabindex tree0 4 = 0" by blast
  moreover from th7 facts have "treeitem_tabIndex getItemTabindex tree0 5 = - 1" by blast
  ultimately show ?thesis
    using roving_getItemTabindex [where ?'l = item_parent] roving_getItemTabindex [where ?'l = nat]
    by (intro conjI)
qed

text \<open>
  C7 as stated fails in the menu tree of the example, with \<open>getItemTabindex\<close> as the
  glossary has it. From the hovered state, Enter in menu 0 opens the submenu of item 1
  and makes item 3 active there, and the pointer then moves back onto item 0. Both
  operations return; afterwards menu 0 and menu 1 are visible and have the same root,
  and item 0 of menu 0 and item 3 of menu 1 both report the tab index 0.
\<close>

theorem two_tab_stops_counterexample:
  "menu_onKeydown plain_list wiring0 hovered_state 0 ''Enter'' \<noteq> None
   \<and> menu_onMouseOver plain_list wiring0 entered_state 0 (hit_item 0) \<noteq> None
   \<and> item_tabIndex getItemTabindex wiring0 two_stops_state 0 = 0
   \<and> item_tabIndex getItemTabindex wiring0 two_stops_state 3 = 0
   \<and> visible wiring0 two_stops_state 0 \<and> visible wiring0 two_stops_state 1
   \<and> root wiring0 0 = Some (Some (RootMenu 0)) \<and> root wiring0 1 = Some (Some (RootMenu 0))"
  by code_simp

section \<open>Menus: hover timeouts\<close>

text \<open>
  How \<^verbatim>\<open>_openItem\<close>, \<^verbatim>\<open>_closeItem\<close>, \<^verbatim>\<open>onMouseOver\<close>, a timeout that fires, and
  \<^verbatim>\<open>MenuItemPattern.close\<close> act on the pending timeouts of a tracked state.
\<close>

subsection \<open>Stored ids\<close>




lemma only_cleared_refl [simp]: "only_cleared s s"
  by (simp add: only_cleared_def)





lemma only_cleared_set_active [simp]: "only_cleared s (set_active s owner v)"
  by (simp add: only_cleared_def)


lemma only_cleared_updates [simp]:
  "only_cleared s (s\<lparr>item_expanded := f\<rparr>)"
  "only_cleared s (s\<lparr>menu_hasBeenHovered := g\<rparr>)"
  "only_cleared s (clearTimeout s h)"
  "only_cleared s (s\<lparr>menu_openTimeout := (menu_openTimeout s)(m := None)\<rparr>)"
  "only_cleared s (s\<lparr>menu_closeTimeout := (menu_closeTimeout s)(m := None)\<rparr>)"
  by (simp_all add: only_cleared_def)












subsection \<open>Timeouts that stay pending\<close>










subsection \<open>Scheduling, hovering, firing\<close>




lemma tracked_hover_flag [simp]: "tracked (s\<lparr>menu_hasBeenHovered := f\<rparr>) = tracked s"
  by (rule tracked_cong) simp_all









subsection \<open>Hover timeouts in general and in the example\<close>

text \<open>
  The initial state \<open>state0\<close> and the example state \<open>hovered_state\<close> are tracked and
  store no id twice, the items beneath item 1 are among 3, 4 and 5, and \<open>hovered_state\<close>
  is the state that the model reaches from \<open>state0\<close> by hovering item 0, letting timeout
  1 fire, and hovering item 1 (compared on the items and menus of the example wiring).
\<close>

lemma state0_tracked_separate: "tracked state0 \<and> separate state0"
  by (simp add: tracked_def separate_def state0_def)




lemma hovered_state_reached:
  "(case Option.bind (menu_onMouseOver plain_list wiring0 state0 0 (hit_item 0))
           (\<lambda>s1. Option.bind (fire_timer plain_list wiring0 s1 1)
              (\<lambda>s2. menu_onMouseOver plain_list wiring0 s2 0 (hit_item 1))) of
      None \<Rightarrow> False
    | Some s \<Rightarrow>
        timers s = timers hovered_state \<and> next_timer s = next_timer hovered_state
        \<and> map (item_expanded s) [0..<13] = map (item_expanded hovered_state) [0..<13]
        \<and> map (menu_activeItem s) [0..<8] = map (menu_activeItem hovered_state) [0..<8]
        \<and> map (menu_openTimeout s) [0..<8] = map (menu_openTimeout hovered_state) [0..<8]
        \<and> map (menu_closeTimeout s) [0..<8] = map (menu_closeTimeout hovered_state) [0..<8]
        \<and> map (menu_hasBeenHovered s) [0..<8]
            = map (menu_hasBeenHovered hovered_state) [0..<8])"
  by code_simp




end
